theory Spec2Isabelle
  imports Complex_Main "HOL-Library.AList" "HOL-Library.Multiset" "HOL-Library.Word"
begin

section \<open>Numbers of the script\<close>

subsection \<open>float64\<close>

text \<open>
  A numpy float64 is a finite binary64 number, an infinity or NaN. A finite value is
  \<open>Fin r\<close> with \<open>r\<close> the real number it stands for; the two zeros are both \<open>Fin 0\<close>
  (they compare equal, and the script never divides by a zero it has computed).
\<close>

datatype npfloat = Fin real | PInf | NInf | NaN

text \<open>
  Rounding to binary64, to nearest with ties to even. The spacing of the floats around
  \<open>r\<close> is \<open>2 powi ulp_exp r\<close>: 52 binary places below the leading bit, and constant
  below the smallest normal number \<open>2 powi emin\<close>. A result of magnitude \<open>2 powi emax\<close>
  or more overflows to an infinity; a result below half the smallest subnormal number
  rounds to zero.
\<close>

definition emin :: int where
  "emin = - 1022"

definition emax :: int where
  "emax = 1024"

definition round_even :: "real \<Rightarrow> int" where
  "round_even z =
     (let f = \<lfloor>z\<rfloor> in
      if z - of_int f < 1 / 2 then f
      else if 1 / 2 < z - of_int f then f + 1
      else if even f then f else f + 1)"

definition ulp_exp :: "real \<Rightarrow> int" where
  "ulp_exp r = (if \<bar>r\<bar> < 2 powi emin then emin - 52 else \<lfloor>log 2 \<bar>r\<bar>\<rfloor> - 52)"

definition nearest :: "real \<Rightarrow> real" where
  "nearest r = of_int (round_even (r / 2 powi ulp_exp r)) * 2 powi ulp_exp r"

definition fl :: "real \<Rightarrow> npfloat" where
  "fl r = (if 2 powi emax \<le> \<bar>nearest r\<bar> then (if 0 < r then PInf else NInf)
           else Fin (nearest r))"


text \<open>A float whose square overflows.\<close>

definition huge :: real where
  "huge = 2 powi 600"

text \<open>
  The operations are those of IEEE 754: the exact result, rounded. An invalid operation
  (the square root of a negative number, infinity minus infinity, zero times infinity,
  zero divided by zero) gives NaN and raises nothing, NaN propagates through every
  operation, and every comparison with NaN is false. \<^verbatim>\<open>np.exp\<close> is taken as correctly
  rounded.
\<close>

fun signed_inf :: "real \<Rightarrow> npfloat" where
  "signed_inf s = (if s = 0 then NaN else if 0 < s then PInf else NInf)"

fun np_neg :: "npfloat \<Rightarrow> npfloat" where
  "np_neg (Fin a) = Fin (- a)"
| "np_neg PInf = NInf"
| "np_neg NInf = PInf"
| "np_neg NaN = NaN"

fun np_add :: "npfloat \<Rightarrow> npfloat \<Rightarrow> npfloat" where
  "np_add NaN _ = NaN"
| "np_add _ NaN = NaN"
| "np_add (Fin a) (Fin b) = fl (a + b)"
| "np_add PInf NInf = NaN"
| "np_add NInf PInf = NaN"
| "np_add PInf _ = PInf"
| "np_add NInf _ = NInf"
| "np_add (Fin a) PInf = PInf"
| "np_add (Fin a) NInf = NInf"

definition np_sub :: "npfloat \<Rightarrow> npfloat \<Rightarrow> npfloat" where
  "np_sub a b = np_add a (np_neg b)"

fun np_mul :: "npfloat \<Rightarrow> npfloat \<Rightarrow> npfloat" where
  "np_mul NaN _ = NaN"
| "np_mul _ NaN = NaN"
| "np_mul (Fin a) (Fin b) = fl (a * b)"
| "np_mul (Fin a) PInf = signed_inf a"
| "np_mul (Fin a) NInf = signed_inf (- a)"
| "np_mul PInf (Fin b) = signed_inf b"
| "np_mul NInf (Fin b) = signed_inf (- b)"
| "np_mul PInf PInf = PInf"
| "np_mul PInf NInf = NInf"
| "np_mul NInf PInf = NInf"
| "np_mul NInf NInf = PInf"

text \<open>
  Division of float64 values never raises: a finite non-zero value over zero is an
  infinity, zero over zero and infinity over infinity are NaN. A zero divisor is taken
  as positive.
\<close>

fun np_div :: "npfloat \<Rightarrow> npfloat \<Rightarrow> npfloat" where
  "np_div NaN _ = NaN"
| "np_div _ NaN = NaN"
| "np_div (Fin a) (Fin b) = (if b = 0 then signed_inf a else fl (a / b))"
| "np_div (Fin a) PInf = Fin 0"
| "np_div (Fin a) NInf = Fin 0"
| "np_div PInf (Fin b) = (if 0 \<le> b then PInf else NInf)"
| "np_div NInf (Fin b) = (if 0 \<le> b then NInf else PInf)"
| "np_div PInf PInf = NaN"
| "np_div PInf NInf = NaN"
| "np_div NInf PInf = NaN"
| "np_div NInf NInf = NaN"

text \<open>\<^verbatim>\<open>np.sqrt\<close> of a float64: NaN (and a warning, no exception) below zero.\<close>

fun np_sqrt :: "npfloat \<Rightarrow> npfloat" where
  "np_sqrt (Fin a) = (if a < 0 then NaN else fl (sqrt a))"
| "np_sqrt PInf = PInf"
| "np_sqrt NInf = NaN"
| "np_sqrt NaN = NaN"

fun np_exp :: "npfloat \<Rightarrow> npfloat" where
  "np_exp (Fin a) = fl (exp a)"
| "np_exp PInf = PInf"
| "np_exp NInf = Fin 0"
| "np_exp NaN = NaN"

text \<open>The comparison \<^verbatim>\<open>a > b\<close>.\<close>

fun np_gt :: "npfloat \<Rightarrow> npfloat \<Rightarrow> bool" where
  "np_gt NaN _ = False"
| "np_gt _ NaN = False"
| "np_gt (Fin a) (Fin b) = (b < a)"
| "np_gt (Fin a) PInf = False"
| "np_gt (Fin a) NInf = True"
| "np_gt PInf PInf = False"
| "np_gt PInf _ = True"
| "np_gt NInf _ = False"

text \<open>The comparison \<^verbatim>\<open>a == b\<close>: NaN is equal to nothing, not even to itself.\<close>

fun np_eq :: "npfloat \<Rightarrow> npfloat \<Rightarrow> bool" where
  "np_eq (Fin a) (Fin b) = (a = b)"
| "np_eq PInf PInf = True"
| "np_eq NInf NInf = True"
| "np_eq _ _ = False"

fun is_finite :: "npfloat \<Rightarrow> bool" where
  "is_finite (Fin a) = True"
| "is_finite _ = False"

text \<open>
  An order on the results that are not negative, for the monotonicity of the weight:
  \<open>nonneg_le a b\<close> when \<open>a\<close> and \<open>b\<close> are not negative, neither is NaN and \<open>a\<close> is at
  most \<open>b\<close>.
\<close>

fun nonneg_le :: "npfloat \<Rightarrow> npfloat \<Rightarrow> bool" where
  "nonneg_le (Fin a) (Fin b) = (0 \<le> a \<and> a \<le> b)"
| "nonneg_le (Fin a) PInf = (0 \<le> a)"
| "nonneg_le PInf PInf = True"
| "nonneg_le _ _ = False"


subsection \<open>int64 and the values of a row\<close>

text \<open>
  \<^verbatim>\<open>read_csv\<close> gives a column of whole numbers the type int64 and a column with a decimal
  point, an exponent or an empty cell the type float64. \<^verbatim>\<open>iterrows\<close> hands out a row as
  a Series of one type: int64 when the three columns are, float64 otherwise. A value of
  a row is thus a numpy scalar of either type. Arithmetic of two int64 scalars is int64
  and wraps around (with a warning, no exception); with a float64 on either side the
  int64 is converted and the result is float64.
\<close>

datatype npnum = I64 "64 word" | F64 npfloat

fun to_float :: "npnum \<Rightarrow> npfloat" where
  "to_float (I64 w) = fl (real_of_int (sint w))"
| "to_float (F64 f) = f"

fun num_sub :: "npnum \<Rightarrow> npnum \<Rightarrow> npnum" where
  "num_sub (I64 a) (I64 b) = I64 (a - b)"
| "num_sub a b = F64 (np_sub (to_float a) (to_float b))"

fun num_add :: "npnum \<Rightarrow> npnum \<Rightarrow> npnum" where
  "num_add (I64 a) (I64 b) = I64 (a + b)"
| "num_add a b = F64 (np_add (to_float a) (to_float b))"

fun num_mul :: "npnum \<Rightarrow> npnum \<Rightarrow> npnum" where
  "num_mul (I64 a) (I64 b) = I64 (a * b)"
| "num_mul a b = F64 (np_mul (to_float a) (to_float b))"

text \<open>\<^verbatim>\<open>v ** 2\<close>.\<close>

definition num_square :: "npnum \<Rightarrow> npnum" where
  "num_square a = num_mul a a"

text \<open>\<^verbatim>\<open>np.sqrt(v)\<close>: an int64 is converted first, the result is a float64.\<close>

definition num_sqrt :: "npnum \<Rightarrow> npfloat" where
  "num_sqrt a = np_sqrt (to_float a)"


section \<open>Patches and the edge weight\<close>

text \<open>
  A row of the data frame, read as a Series with the columns \<^verbatim>\<open>x\<close>, \<^verbatim>\<open>y\<close> and
  \<^verbatim>\<open>quality\<close>.
\<close>

record patch =
  x :: npnum
  y :: npnum
  quality :: npnum

text \<open>The module constants: the Python floats \<^verbatim>\<open>15.0\<close>, \<^verbatim>\<open>0.85\<close> and \<^verbatim>\<open>0.01\<close>.\<close>

definition DISPERSAL_DISTANCE :: npfloat where
  "DISPERSAL_DISTANCE = fl 15"

definition DAMPING_FACTOR :: npfloat where
  "DAMPING_FACTOR = fl (85 / 100)"

definition WEIGHT_THRESHOLD :: npfloat where
  "WEIGHT_THRESHOLD = fl (1 / 100)"

text \<open>
  \<^verbatim>\<open>calculate_edge_weight(patch1, patch2, dispersal_dist)\<close>: the Euclidean distance, the
  decay factor \<^verbatim>\<open>exp(-distance / dispersal_dist)\<close>, the quality factor
  \<^verbatim>\<open>sqrt(quality1 * quality2)\<close>, and their product. The function has no check and no
  raise.
\<close>

definition calculate_edge_weight :: "patch \<Rightarrow> patch \<Rightarrow> npfloat \<Rightarrow> npfloat" where
  "calculate_edge_weight patch1 patch2 dispersal_dist =
     (let distance = num_sqrt (num_add (num_square (num_sub (x patch1) (x patch2)))
                                       (num_square (num_sub (y patch1) (y patch2))));
          distance_factor = np_exp (np_div (np_neg distance) dispersal_dist);
          quality_factor = num_sqrt (num_mul (quality patch1) (quality patch2))
      in np_mul distance_factor quality_factor)"


section \<open>The habitat network\<close>

text \<open>
  A label of the index. An empty \<^verbatim>\<open>id\<close> cell is read as NaN, and Python's \<^verbatim>\<open>!=\<close> holds
  between NaN and everything, itself included. \<open>NaNLabel\<close> is the object \<^verbatim>\<open>np.nan\<close>
  that an index of objects (text labels) holds in such a place: the same object at every
  visit, so that as a dictionary key it is found again, keys being compared by identity
  first. (An index of floats hands out a new NaN object at every visit, which no key of a
  dictionary equals; the nodes of such a frame are not modelled.)
\<close>

datatype 'a label = Label 'a | NaNLabel

fun py_ne :: "'a label \<Rightarrow> 'a label \<Rightarrow> bool" where
  "py_ne (Label a) (Label b) = (a \<noteq> b)"
| "py_ne _ _ = True"

text \<open>
  The data frame after \<^verbatim>\<open>set_index('id')\<close>, as \<^verbatim>\<open>iterrows()\<close> walks it: the rows in
  file order, each with its index label. \<^verbatim>\<open>set_index\<close> keeps rows that share a label.
\<close>

type_synonym 'a patches = "('a label \<times> patch) list"

text \<open>The attributes \<^verbatim>\<open>quality\<close> and \<^verbatim>\<open>pos\<close> of a node.\<close>

type_synonym node_attr = "npnum \<times> (npnum \<times> npnum)"

text \<open>
  \<^verbatim>\<open>nx.DiGraph\<close>: the nodes are a dictionary in insertion order (a key that is set again
  keeps its place and takes the new value), the edges a dictionary from the ordered
  pair of end points to the attribute \<^verbatim>\<open>weight\<close>.
\<close>

record 'id digraph =
  nodes :: "('id \<times> node_attr) list"
  edges :: "('id \<times> 'id) \<rightharpoonup> npfloat"

definition DiGraph :: "'id digraph" where
  "DiGraph = \<lparr>nodes = [], edges = Map.empty\<rparr>"

definition add_node :: "'id \<Rightarrow> npnum \<Rightarrow> npnum \<times> npnum \<Rightarrow> 'id digraph \<Rightarrow> 'id digraph" where
  "add_node patch_id q pos G = G\<lparr>nodes := AList.update patch_id (q, pos) (nodes G)\<rparr>"

text \<open>
  \<^verbatim>\<open>G.add_edge(source_id, target_id, weight=weight)\<close>. The script calls it only with
  labels of the data frame, which its first loop has already added as nodes.
\<close>

definition add_edge :: "'id \<Rightarrow> 'id \<Rightarrow> npfloat \<Rightarrow> 'id digraph \<Rightarrow> 'id digraph" where
  "add_edge source_id target_id weight G =
     G\<lparr>edges := (edges G)((source_id, target_id) \<mapsto> weight)\<rparr>"

text \<open>The first loop of the network construction: one node for each row.\<close>

definition add_nodes :: "'a patches \<Rightarrow> 'a label digraph \<Rightarrow> 'a label digraph" where
  "add_nodes patches_df G =
     fold (\<lambda>(patch_id, data) G. add_node patch_id (quality data) (x data, y data) G)
       patches_df G"

text \<open>
  The inner loop over the targets, for one source row, with the guard
  \<^verbatim>\<open>source_id != target_id\<close>.
\<close>

definition add_edges_from ::
  "npfloat \<Rightarrow> npfloat \<Rightarrow> 'a label \<Rightarrow> patch \<Rightarrow> 'a patches \<Rightarrow> 'a label digraph
     \<Rightarrow> 'a label digraph" where
  "add_edges_from dispersal threshold source_id source_data patches_df G =
     fold (\<lambda>(target_id, target_data) G.
             if py_ne source_id target_id then
               (let weight = calculate_edge_weight source_data target_data dispersal
                in if np_gt weight threshold then add_edge source_id target_id weight G
                   else G)
             else G)
       patches_df G"

text \<open>The outer loop over the sources; each source meets every row of the frame.\<close>

definition add_edges ::
  "npfloat \<Rightarrow> npfloat \<Rightarrow> 'a patches \<Rightarrow> 'a patches \<Rightarrow> 'a label digraph \<Rightarrow> 'a label digraph" where
  "add_edges dispersal threshold patches_df sources G =
     fold (\<lambda>(source_id, source_data) G.
             add_edges_from dispersal threshold source_id source_data patches_df G)
       sources G"

text \<open>
  The network construction of \<^verbatim>\<open>main\<close>, with the two module constants as arguments.
\<close>

definition build_graph :: "npfloat \<Rightarrow> npfloat \<Rightarrow> 'a patches \<Rightarrow> 'a label digraph" where
  "build_graph dispersal threshold patches_df =
     add_edges dispersal threshold patches_df patches_df (add_nodes patches_df DiGraph)"


section \<open>The ranking\<close>

text \<open>
  \<^verbatim>\<open>sorted(pagerank_scores.items(), key=lambda item: item[1], reverse=True)\<close>. Python's
  sort is stable, and with \<^verbatim>\<open>reverse=True\<close> it stays so: the list is reversed, sorted
  in ascending order of the key, and reversed again. Items with equal scores keep the
  order of the dictionary, which is the order of the nodes.
\<close>

definition sorted_ranks :: "('id \<times> real) list \<Rightarrow> ('id \<times> real) list" where
  "sorted_ranks items = rev (sort_key snd (rev items))"


section \<open>The solver\<close>

text \<open>
  The routine \<^verbatim>\<open>nx.pagerank\<close> that \<^verbatim>\<open>main\<close> calls is library code, not part of the
  script. The definitions of this section follow the solver of the specification (its
  section 4.3) instead, over the reals.
\<close>

text \<open>
  Modelled from the spec: the code of \<^verbatim>\<open>nx.pagerank\<close> is missing. The weighted directed
  graph of the data model: the node identifiers in a fixed order, and the edges with
  their real weights.
\<close>

record 'id wgraph =
  wnodes :: "'id list"
  wedges :: "('id \<times> 'id) \<rightharpoonup> real"

text \<open>
  Modelled from the spec: the code of \<^verbatim>\<open>nx.pagerank\<close> is missing. The failure of the
  solver carries the residual of the last round (none when no round ran).
\<close>

datatype solver_error = ConvergenceFailure "real option"

text \<open>
  Modelled from the spec: the code of \<^verbatim>\<open>nx.pagerank\<close> is missing. The weight of an
  edge, 0 where there is none.
\<close>

definition edge_weight :: "'id wgraph \<Rightarrow> 'id \<Rightarrow> 'id \<Rightarrow> real" where
  "edge_weight G u v = (case wedges G (u, v) of None \<Rightarrow> 0 | Some w \<Rightarrow> w)"

text \<open>Modelled from the spec: the code of \<^verbatim>\<open>nx.pagerank\<close> is missing.\<close>

definition has_edge :: "'id wgraph \<Rightarrow> 'id \<Rightarrow> 'id \<Rightarrow> bool" where
  "has_edge G u v = (wedges G (u, v) \<noteq> None)"

text \<open>
  Modelled from the spec: the code of \<^verbatim>\<open>nx.pagerank\<close> is missing. The sum of a node's
  outgoing weights.
\<close>

definition out_weight :: "'id wgraph \<Rightarrow> 'id \<Rightarrow> real" where
  "out_weight G u = (\<Sum>v\<leftarrow>filter (has_edge G u) (wnodes G). edge_weight G u v)"

text \<open>
  Modelled from the spec: the code of \<^verbatim>\<open>nx.pagerank\<close> is missing. A dangling node has
  no outgoing edge.
\<close>

definition dangling :: "'id wgraph \<Rightarrow> 'id \<Rightarrow> bool" where
  "dangling G u = (filter (has_edge G u) (wnodes G) = [])"

text \<open>
  Modelled from the spec: the code of \<^verbatim>\<open>nx.pagerank\<close> is missing. The weight of an
  edge over the sum of its source's outgoing weights.
\<close>

definition transition_prob :: "'id wgraph \<Rightarrow> 'id \<Rightarrow> 'id \<Rightarrow> real" where
  "transition_prob G u v = edge_weight G u v / out_weight G u"

text \<open>
  Modelled from the spec: the code of \<^verbatim>\<open>nx.pagerank\<close> is missing. One full update of
  the score vector: the teleport term, the mass of the dangling nodes spread over all
  nodes, and the mass that comes in along the edges.
\<close>

definition new_score :: "'id wgraph \<Rightarrow> real \<Rightarrow> ('id \<Rightarrow> real) \<Rightarrow> 'id \<Rightarrow> real" where
  "new_score G d score v =
     (let n = real (length (wnodes G)) in
      (1 - d) / n +
      d * ((\<Sum>u\<leftarrow>filter (dangling G) (wnodes G). score u / n) +
           (\<Sum>u\<leftarrow>filter (\<lambda>u. has_edge G u v) (wnodes G). score u * transition_prob G u v)))"

text \<open>
  Modelled from the spec: the code of \<^verbatim>\<open>nx.pagerank\<close> is missing. The sum of the
  absolute changes of one update.
\<close>

definition residual :: "'id wgraph \<Rightarrow> ('id \<Rightarrow> real) \<Rightarrow> ('id \<Rightarrow> real) \<Rightarrow> real" where
  "residual G score score' = (\<Sum>v\<leftarrow>wnodes G. \<bar>score' v - score v\<bar>)"

text \<open>
  Modelled from the spec: the code of \<^verbatim>\<open>nx.pagerank\<close> is missing. The loop: \<open>k\<close>
  rounds are left, \<open>score\<close> is the current vector and \<open>r\<close> the residual of the last
  round (none before the first). A round whose residual is below \<open>n * tol\<close> returns
  its vector; when no round is left the loop fails.
\<close>

fun power_iteration ::
  "'id wgraph \<Rightarrow> real \<Rightarrow> real \<Rightarrow> nat \<Rightarrow> ('id \<Rightarrow> real) \<Rightarrow> real option
     \<Rightarrow> solver_error + ('id \<Rightarrow> real)" where
  "power_iteration G d tol 0 score r = Inl (ConvergenceFailure r)"
| "power_iteration G d tol (Suc k) score r =
     (let score' = new_score G d score; r' = residual G score score' in
      if r' < real (length (wnodes G)) * tol then Inr score'
      else power_iteration G d tol k score' (Some r'))"

text \<open>
  Modelled from the spec: the code of \<^verbatim>\<open>nx.pagerank\<close> is missing. The solver: the
  empty distribution for the graph without nodes, the loop from the uniform vector
  otherwise; the distribution lists the nodes in their order.
\<close>

definition solve ::
  "'id wgraph \<Rightarrow> real \<Rightarrow> real \<Rightarrow> nat \<Rightarrow> solver_error + ('id \<times> real) list" where
  "solve G d tol maxIterations =
     (let n = length (wnodes G) in
      if n = 0 then Inr []
      else (case power_iteration G d tol maxIterations (\<lambda>v. 1 / real n) None of
              Inl e \<Rightarrow> Inl e
            | Inr score \<Rightarrow> Inr (map (\<lambda>v. (v, score v)) (wnodes G))))"

text \<open>
  Modelled from the spec: the code of \<^verbatim>\<open>nx.pagerank\<close> is missing. The weights of the
  data model's graph are positive. Only pairs of nodes matter to the solver.
\<close>

definition positive_weights :: "'id wgraph \<Rightarrow> bool" where
  "positive_weights G =
     list_all (\<lambda>u. list_all (\<lambda>v. case wedges G (u, v) of None \<Rightarrow> True | Some w \<Rightarrow> 0 < w)
                      (wnodes G)) (wnodes G)"

text \<open>
  Modelled from the spec: the code of \<^verbatim>\<open>nx.pagerank\<close> is missing. The score vector
  after \<open>k\<close> full updates, from the uniform start, and the residual of update
  \<open>k + 1\<close>: the quantities the convergence test of the loop looks at.
\<close>

fun score_at :: "'id wgraph \<Rightarrow> real \<Rightarrow> nat \<Rightarrow> 'id \<Rightarrow> real" where
  "score_at G d 0 = (\<lambda>v. 1 / real (length (wnodes G)))"
| "score_at G d (Suc k) = new_score G d (score_at G d k)"

definition residual_at :: "'id wgraph \<Rightarrow> real \<Rightarrow> nat \<Rightarrow> real" where
  "residual_at G d k = residual G (score_at G d k) (score_at G d (Suc k))"


section \<open>The script\<close>

text \<open>
  \<^verbatim>\<open>main\<close>, up to the ranking it prints. The input is what \<^verbatim>\<open>pd.read_csv\<close> gives:
  nothing when the file is missing (the script reports it and returns), the rows
  otherwise. The solver, library code that is not part of the script, is an argument;
  an exception of the solver is not caught and ends the run.
\<close>

datatype ('id, 'e) run_result = FileNotFound | Raised 'e | Ranked "('id \<times> real) list"

definition main ::
  "('a label digraph \<Rightarrow> npfloat \<Rightarrow> 'e + ('a label \<times> real) list) \<Rightarrow> 'a patches option
     \<Rightarrow> ('a label, 'e) run_result" where
  "main solver input =
     (case input of
        None \<Rightarrow> FileNotFound
      | Some patches_df \<Rightarrow>
          (let G = build_graph DISPERSAL_DISTANCE WEIGHT_THRESHOLD patches_df in
           case solver G DAMPING_FACTOR of
             Inl e \<Rightarrow> Raised e
           | Inr pagerank_scores \<Rightarrow> Ranked (sorted_ranks pagerank_scores)))"


section \<open>Properties of the rounding\<close>

lemma round_even_of_int [simp]: "round_even (of_int n) = n"
  by (simp add: round_even_def)

lemma round_even_bounds: "\<lfloor>z\<rfloor> \<le> round_even z \<and> round_even z \<le> \<lfloor>z\<rfloor> + 1"
  by (simp add: round_even_def Let_def)

lemma round_even_ge: "of_int N \<le> z \<Longrightarrow> N \<le> round_even z"
proof -
  assume "of_int N \<le> z"
  then have "N \<le> \<lfloor>z\<rfloor>" by (simp add: le_floor_iff)
  with round_even_bounds [of z] show ?thesis by linarith
qed

lemma round_even_le: "z \<le> of_int N \<Longrightarrow> round_even z \<le> N"
proof (cases "z = of_int N")
  case True
  then show ?thesis by simp
next
  case False
  assume "z \<le> of_int N"
  with False have "z < of_int N" by simp
  then have "\<lfloor>z\<rfloor> < N" by (simp add: floor_less_iff)
  with round_even_bounds [of z] show ?thesis by linarith
qed

lemma round_even_mono: "a \<le> b \<Longrightarrow> round_even a \<le> round_even b"
proof -
  assume ab: "a \<le> b"
  then have fl: "\<lfloor>a\<rfloor> \<le> \<lfloor>b\<rfloor>" by (rule floor_mono)
  show ?thesis
  proof (cases "\<lfloor>a\<rfloor> = \<lfloor>b\<rfloor>")
    case True
    with ab show ?thesis by (auto simp: round_even_def Let_def)
  next
    case False
    with fl have "\<lfloor>a\<rfloor> + 1 \<le> \<lfloor>b\<rfloor>" by simp
    with round_even_bounds [of a] round_even_bounds [of b] show ?thesis by linarith
  qed
qed

lemma round_even_minus: "round_even (- z) = - round_even z"
proof (cases "z \<in> \<int>")
  case True
  then obtain n where "z = of_int n" by (auto elim: Ints_cases)
  then show ?thesis by (simp flip: of_int_minus)
next
  case False
  then have "z \<noteq> of_int \<lfloor>z\<rfloor>" by (metis Ints_of_int)
  then have f: "\<lfloor>- z\<rfloor> = - \<lfloor>z\<rfloor> - 1"
    by (simp add: floor_minus ceiling_altdef)
  show ?thesis
    unfolding round_even_def Let_def f by auto
qed

lemma two_powi_pos [simp]: "0 < (2::real) powi e"
  by simp

lemma ulp_exp_minus [simp]: "ulp_exp (- r) = ulp_exp r"
  by (simp add: ulp_exp_def)

lemma ulp_exp_abs [simp]: "ulp_exp \<bar>r\<bar> = ulp_exp r"
  by (simp add: ulp_exp_def)

lemma ulp_exp_ge: "emin - 52 \<le> ulp_exp r"
proof (cases "\<bar>r\<bar> < 2 powi emin")
  case True
  then show ?thesis by (simp add: ulp_exp_def)
next
  case False
  then have r: "(2::real) powi emin \<le> \<bar>r\<bar>" by simp
  then have pos: "0 < \<bar>r\<bar>" by (smt (verit) two_powi_pos)
  have "(2::real) powr (real_of_int emin) \<le> \<bar>r\<bar>"
    using r by (simp add: powr_real_of_int')
  then have "real_of_int emin \<le> log 2 \<bar>r\<bar>"
    using pos by (simp add: le_log_iff)
  then have "emin \<le> \<lfloor>log 2 \<bar>r\<bar>\<rfloor>" by (simp add: le_floor_iff)
  with False show ?thesis by (simp add: ulp_exp_def)
qed

lemma normal_range:
  assumes "2 powi emin \<le> \<bar>r\<bar>"
  shows "2 powi (ulp_exp r + 52) \<le> \<bar>r\<bar> \<and> \<bar>r\<bar> < 2 powi (ulp_exp r + 53)"
proof -
  have pos: "0 < \<bar>r\<bar>" using assms by (smt (verit) two_powi_pos)
  define k where "k = \<lfloor>log 2 \<bar>r\<bar>\<rfloor>"
  have e: "ulp_exp r = k - 52" using assms by (simp add: ulp_exp_def k_def)
  have "2 powr (real_of_int k) \<le> \<bar>r\<bar> \<and> \<bar>r\<bar> < 2 powr (real_of_int k + 1)"
    using floor_log_eq_powr_iff [of "\<bar>r\<bar>" 2 k] pos by (simp add: k_def)
  then have "2 powi k \<le> \<bar>r\<bar> \<and> \<bar>r\<bar> < 2 powi (k + 1)"
    using powr_real_of_int' [of 2 k] powr_real_of_int' [of 2 "k + 1"] by simp
  then show ?thesis by (simp add: e add_ac)
qed

lemma below_top: "\<bar>r\<bar> < 2 powi (ulp_exp r + 53)"
proof (cases "\<bar>r\<bar> < 2 powi emin")
  case True
  then have "ulp_exp r = emin - 52" by (simp add: ulp_exp_def)
  moreover have "(2::real) powi emin \<le> 2 powi (emin + 1)"
    by (intro power_int_increasing) simp_all
  ultimately show ?thesis using True by (simp add: add_ac)
next
  case False
  then show ?thesis using normal_range [of r] by simp
qed

lemma ulp_exp_mono:
  assumes "\<bar>r\<bar> \<le> \<bar>s\<bar>"
  shows "ulp_exp r \<le> ulp_exp s"
proof (cases "\<bar>r\<bar> < 2 powi emin")
  case True
  then show ?thesis using ulp_exp_ge [of s] by (simp add: ulp_exp_def)
next
  case False
  then have r: "(2::real) powi emin \<le> \<bar>r\<bar>" by simp
  then have pos: "0 < \<bar>r\<bar>" by (smt (verit) two_powi_pos)
  have "log 2 \<bar>r\<bar> \<le> log 2 \<bar>s\<bar>" using pos assms by simp
  then have "\<lfloor>log 2 \<bar>r\<bar>\<rfloor> \<le> \<lfloor>log 2 \<bar>s\<bar>\<rfloor>" by (rule floor_mono)
  then show ?thesis using False r assms by (simp add: ulp_exp_def)
qed

lemma scaled_bounds:
  "\<bar>r / 2 powi ulp_exp r\<bar> < 2 ^ 53"
proof -
  have "\<bar>r\<bar> < 2 powi (ulp_exp r + 53)" by (rule below_top)
  also have "\<dots> = 2 powi ulp_exp r * 2 ^ 53"
    by (simp add: power_int_add)
  finally show ?thesis by (simp add: abs_divide pos_divide_less_eq mult.commute)
qed

lemma scaled_lt: "r / 2 powi ulp_exp r < 2 ^ 53"
  using scaled_bounds [of r] by linarith


lemma scaled_normal:
  assumes "2 powi emin \<le> \<bar>r\<bar>"
  shows "2 ^ 52 \<le> \<bar>r / 2 powi ulp_exp r\<bar>"
proof -
  have "2 powi ulp_exp r * 2 ^ 52 = (2::real) powi (ulp_exp r + 52)"
    by (simp add: power_int_add)
  also have "\<dots> \<le> \<bar>r\<bar>" using normal_range [OF assms] by simp
  finally show ?thesis by (simp add: abs_divide pos_le_divide_eq mult.commute)
qed

lemma nearest_minus: "nearest (- r) = - nearest r"
  by (simp add: nearest_def round_even_minus)

lemma nearest_nonneg: "0 \<le> r \<Longrightarrow> 0 \<le> nearest r"
  unfolding nearest_def
  by (intro mult_nonneg_nonneg) (auto intro!: round_even_ge [of 0, simplified])

lemma nearest_nonpos: "r \<le> 0 \<Longrightarrow> nearest r \<le> 0"
  using nearest_nonneg [of "- r"] by (simp add: nearest_minus)

lemma nearest_exact:
  assumes "r = of_int m * 2 powi e" "\<bar>m\<bar> < 2 ^ 53" "emin - 52 \<le> e"
  shows "nearest r = r"
proof -
  have le: "ulp_exp r \<le> e"
  proof (cases "\<bar>r\<bar> < 2 powi emin")
    case True
    then show ?thesis using assms(3) by (simp add: ulp_exp_def)
  next
    case False
    then have n: "(2::real) powi emin \<le> \<bar>r\<bar>" by simp
    have "\<bar>r\<bar> = of_int \<bar>m\<bar> * 2 powi e" by (simp add: assms(1) abs_mult)
    also have "\<dots> < 2 ^ 53 * 2 powi e"
      using assms(2) by (intro mult_strict_right_mono) (simp_all flip: of_int_less_iff)
    also have "\<dots> = 2 powi (e + 53)" by (simp add: power_int_add)
    finally have "(2::real) powi (ulp_exp r + 52) < 2 powi (e + 53)"
      using normal_range [OF n] by linarith
    then have "ulp_exp r + 52 < e + 53"
      by (smt (verit) power_int_increasing)
    then show ?thesis by simp
  qed
  have "r / 2 powi ulp_exp r = of_int m * 2 powi (e - ulp_exp r)"
    by (simp add: assms(1) power_int_diff)
  also have "\<dots> = of_int (m * 2 ^ nat (e - ulp_exp r))"
    using le by (simp add: power_int_def)
  finally have "round_even (r / 2 powi ulp_exp r) = m * 2 ^ nat (e - ulp_exp r)"
    by (simp only: round_even_of_int)
  then have "nearest r = of_int (m * 2 ^ nat (e - ulp_exp r)) * 2 powi ulp_exp r"
    by (simp add: nearest_def)
  also have "\<dots> = of_int m * (2 powi (e - ulp_exp r) * 2 powi ulp_exp r)"
    using le by (simp add: power_int_def)
  also have "\<dots> = of_int m * 2 powi e"
    by (simp flip: power_int_add)
  finally show ?thesis by (simp add: assms(1))
qed

lemma nearest_le_top: "0 \<le> r \<Longrightarrow> nearest r \<le> 2 powi (ulp_exp r + 53)"
proof -
  assume "0 \<le> r"
  have "r / 2 powi ulp_exp r \<le> of_int (2 ^ 53)"
    using scaled_lt [of r] by simp
  then have "round_even (r / 2 powi ulp_exp r) \<le> 2 ^ 53" by (rule round_even_le)
  then have "real_of_int (round_even (r / 2 powi ulp_exp r)) \<le> 2 ^ 53"
    by (metis of_int_le_iff of_int_numeral of_int_power)
  then have "nearest r \<le> 2 ^ 53 * 2 powi ulp_exp r"
    unfolding nearest_def by (intro mult_right_mono) simp_all
  then show ?thesis by (simp add: power_int_add mult.commute)
qed

lemma nearest_ge_bottom:
  assumes "0 \<le> r" "2 powi emin \<le> r"
  shows "2 powi (ulp_exp r + 52) \<le> nearest r"
proof -
  have "of_int (2 ^ 52) \<le> r / 2 powi ulp_exp r"
    using scaled_normal [of r] assms by simp
  then have "2 ^ 52 \<le> round_even (r / 2 powi ulp_exp r)" by (rule round_even_ge)
  then have "2 ^ 52 \<le> real_of_int (round_even (r / 2 powi ulp_exp r))"
    by (metis of_int_le_iff of_int_numeral of_int_power)
  then have "2 ^ 52 * 2 powi ulp_exp r \<le> nearest r"
    unfolding nearest_def by (intro mult_right_mono) simp_all
  then show ?thesis by (simp add: power_int_add mult.commute)
qed

lemma nearest_mono_nonneg:
  assumes "0 \<le> r" "r \<le> s"
  shows "nearest r \<le> nearest s"
proof -
  have le: "ulp_exp r \<le> ulp_exp s" using assms by (intro ulp_exp_mono) simp
  show ?thesis
  proof (cases "ulp_exp r = ulp_exp s")
    case True
    have "r / 2 powi ulp_exp s \<le> s / 2 powi ulp_exp s"
      using assms(2) by (simp add: divide_right_mono)
    then have "round_even (r / 2 powi ulp_exp s) \<le> round_even (s / 2 powi ulp_exp s)"
      by (rule round_even_mono)
    then show ?thesis
      unfolding nearest_def True by (intro mult_right_mono) simp_all
  next
    case False
    with le have lt: "ulp_exp r + 53 \<le> ulp_exp s + 52" by simp
    have "emin - 52 < ulp_exp s" using ulp_exp_ge [of r] le False by simp
    then have "\<not> \<bar>s\<bar> < 2 powi emin" by (auto simp: ulp_exp_def)
    then have n: "2 powi emin \<le> s" using assms by simp
    have "nearest r \<le> 2 powi (ulp_exp r + 53)" using assms(1) by (rule nearest_le_top)
    also have "\<dots> \<le> 2 powi (ulp_exp s + 52)"
      using lt by (intro power_int_increasing) simp_all
    also have "\<dots> \<le> nearest s"
      using assms n by (intro nearest_ge_bottom) simp_all
    finally show ?thesis .
  qed
qed


lemma nearest_zero [simp]: "nearest 0 = 0"
  using round_even_of_int [of 0] by (simp add: nearest_def)

lemma fl_exact:
  assumes "r = of_int m * 2 powi e" "\<bar>m\<bar> < 2 ^ 53" "emin - 52 \<le> e" "e + 53 \<le> emax"
  shows "fl r = Fin r"
proof -
  have n: "nearest r = r" using assms(1-3) by (rule nearest_exact)
  have "\<bar>r\<bar> = of_int \<bar>m\<bar> * 2 powi e" by (simp add: assms(1) abs_mult)
  also have "\<dots> < 2 ^ 53 * 2 powi e"
    using assms(2) by (intro mult_strict_right_mono) (simp_all flip: of_int_less_iff)
  also have "\<dots> = 2 powi (e + 53)" by (simp add: power_int_add)
  also have "\<dots> \<le> 2 powi emax"
    using assms(4) by (intro power_int_increasing) simp_all
  finally show ?thesis by (simp add: fl_def n)
qed

lemma fl_of_int: "\<bar>n\<bar> < 2 ^ 53 \<Longrightarrow> fl (of_int n) = Fin (of_int n)"
  by (rule fl_exact [of _ n 0]) (simp_all add: emin_def emax_def)

lemma fl_0 [simp]: "fl 0 = Fin 0"
  using fl_of_int [of 0] by simp

lemma fl_1 [simp]: "fl 1 = Fin 1"
  using fl_of_int [of 1] by simp

lemma fl_numeral [simp]: "(numeral k :: int) < 2 ^ 53 \<Longrightarrow> fl (numeral k) = Fin (numeral k)"
  using fl_of_int [of "numeral k"] by simp

lemma fl_neg_numeral [simp]:
  "(numeral k :: int) < 2 ^ 53 \<Longrightarrow> fl (- numeral k) = Fin (- numeral k)"
  using fl_of_int [of "- numeral k"] by simp

lemma fl_two_powi:
  assumes "emin - 52 \<le> e"
  shows "fl (2 powi e) = (if e < emax then Fin (2 powi e) else PInf)"
proof -
  have n: "nearest (2 powi e) = 2 powi e"
    using assms by (intro nearest_exact [of _ 1 e]) simp_all
  show ?thesis
  proof (cases "e < emax")
    case True
    then have "(2::real) powi e < 2 powi emax"
      by (intro power_int_strict_increasing) simp_all
    with True show ?thesis by (simp add: fl_def n)
  next
    case False
    then have "(2::real) powi emax \<le> 2 powi e"
      by (intro power_int_increasing) simp_all
    with False show ?thesis by (simp add: fl_def n)
  qed
qed

lemma fl_minus: "fl (- r) = np_neg (fl r)"
proof (cases "2 powi emax \<le> \<bar>nearest r\<bar>")
  case True
  then have "nearest r \<noteq> 0" by (smt (verit) two_powi_pos)
  then have "r \<noteq> 0" by auto
  with True show ?thesis by (simp add: fl_def nearest_minus)
next
  case False
  then show ?thesis by (simp add: fl_def nearest_minus)
qed

lemma fl_not_NaN [simp]: "fl r \<noteq> NaN"
  by (simp add: fl_def)

lemma fl_mono:
  assumes "0 \<le> r" "r \<le> s"
  shows "nonneg_le (fl r) (fl s)"
proof -
  have n: "0 \<le> nearest r" "nearest r \<le> nearest s"
    using assms by (simp_all add: nearest_nonneg nearest_mono_nonneg)
  have pos: "0 < v" if "2 powi emax \<le> \<bar>nearest v\<bar>" "0 \<le> v" for v
  proof -
    from that(1) have "nearest v \<noteq> 0" by (smt (verit) two_powi_pos)
    then have "v \<noteq> 0" by auto
    with that(2) show ?thesis by simp
  qed
  show ?thesis
  proof (cases "2 powi emax \<le> \<bar>nearest s\<bar>")
    case True
    then have "0 < s" using pos [of s] assms by simp
    with True have s: "fl s = PInf" by (simp add: fl_def)
    have "fl r = PInf \<or> fl r = Fin (nearest r)"
      using pos [of r] assms(1) by (auto simp: fl_def)
    then show ?thesis using n(1) by (auto simp: s)
  next
    case False
    with n have "\<not> 2 powi emax \<le> \<bar>nearest r\<bar>" by simp
    with False show ?thesis using n by (simp add: fl_def)
  qed
qed

lemma fl_nonneg: "0 \<le> r \<Longrightarrow> nonneg_le (Fin 0) (fl r)"
  using fl_mono [of 0 r] by simp

lemma fl_nonneg_cases:
  assumes "0 \<le> r"
  obtains v where "fl r = Fin v" "0 \<le> v" | "fl r = PInf"
  using fl_nonneg [OF assms] by (cases "fl r") auto

lemma fl_nonpos_cases:
  assumes "r \<le> 0"
  obtains v where "fl r = Fin v" "v \<le> 0" | "fl r = NInf"
proof -
  have "0 \<le> - r" using assms by simp
  then show thesis
  proof (cases rule: fl_nonneg_cases)
    case (1 v)
    then have "fl r = Fin (- v)" using fl_minus [of "- r"] by simp
    with 1 that(1) show ?thesis by simp
  next
    case 2
    then have "fl r = NInf" using fl_minus [of "- r"] by simp
    with that(2) show ?thesis by simp
  qed
qed


lemma fl_small_finite:
  assumes "\<bar>r\<bar> \<le> 2 ^ 63"
  shows "is_finite (fl r)"
proof -
  have top: "fl (2 ^ 63) = Fin (2 ^ 63)"
    using fl_two_powi [of 63] by (simp add: emin_def emax_def)
  have "nonneg_le (fl \<bar>r\<bar>) (fl (2 ^ 63))" using assms by (intro fl_mono) simp_all
  then have "nonneg_le (fl \<bar>r\<bar>) (Fin (2 ^ 63))" by (simp only: top)
  then have f: "is_finite (fl \<bar>r\<bar>)" by (cases "fl \<bar>r\<bar>") simp_all
  show ?thesis
  proof (cases "0 \<le> r")
    case True
    with f show ?thesis by simp
  next
    case False
    then have "fl \<bar>r\<bar> = np_neg (fl r)" using fl_minus [of r] by simp
    with f show ?thesis by (cases "fl r") simp_all
  qed
qed

lemma to_float_I64_finite: "is_finite (to_float (I64 w))"
proof -
  have "- (2 ^ 63) \<le> sint w" "sint w < 2 ^ 63"
    using sint_ge [of w] sint_lt [of w] by simp_all
  then have "\<bar>sint w\<bar> \<le> 2 ^ 63" by linarith
  then have "real_of_int \<bar>sint w\<bar> \<le> real_of_int (2 ^ 63)"
    by (simp only: of_int_le_iff)
  then have "\<bar>real_of_int (sint w)\<bar> \<le> 2 ^ 63" by simp
  then show ?thesis by (simp add: fl_small_finite)
qed

text \<open>The value of the threshold \<^verbatim>\<open>0.01\<close>.\<close>

lemma weight_threshold_value:
  obtains t where "WEIGHT_THRESHOLD = Fin t" "0 < t" "t < 1"
proof -
  have lo: "fl (1 / 128) = Fin (1 / 128)"
    by (rule fl_exact [of _ 1 "- 7"]) (simp_all add: emin_def emax_def power_int_minus)
  have hi: "fl (1 / 2) = Fin (1 / 2)"
    by (rule fl_exact [of _ 1 "- 1"]) (simp_all add: emin_def emax_def power_int_minus)
  have "nonneg_le (fl (1 / 128)) (fl (1 / 100))" by (intro fl_mono) simp_all
  moreover have "nonneg_le (fl (1 / 100)) (fl (1 / 2))" by (intro fl_mono) simp_all
  ultimately obtain t where "fl (1 / 100) = Fin t" "1 / 128 \<le> t" "t \<le> 1 / 2"
    by (cases "fl (1 / 100)") (simp_all add: lo hi)
  then show thesis using that [of t] by (simp add: WEIGHT_THRESHOLD_def)
qed

lemma fl_neg_1 [simp]: "fl (- 1) = Fin (- 1)"
  by (simp add: fl_minus)

lemma dispersal_distance_value: "DISPERSAL_DISTANCE = Fin 15"
  by (simp add: DISPERSAL_DISTANCE_def)


section \<open>Properties of the edge weight\<close>

lemma np_mul_commute: "np_mul a b = np_mul b a"
  by (cases a; cases b) (simp_all add: mult.commute)

lemma np_sub_swap: "np_sub b a = np_neg (np_sub a b)"
proof (cases a; cases b)
  fix u v assume "a = Fin u" "b = Fin v"
  then show ?thesis
    using fl_minus [of "u - v"] by (simp add: np_sub_def)
qed (simp_all add: np_sub_def)

lemma np_mul_neg_neg: "np_mul (np_neg a) (np_neg a) = np_mul a a"
  by (cases a) simp_all

lemma np_square_sub_commute:
  "np_mul (np_sub a b) (np_sub a b) = np_mul (np_sub b a) (np_sub b a)"
  by (simp add: np_sub_swap [of b a] np_mul_neg_neg)

lemma num_mul_commute: "num_mul a b = num_mul b a"
  by (cases a; cases b) (simp_all add: mult.commute np_mul_commute)

lemma num_square_sub_commute: "num_square (num_sub a b) = num_square (num_sub b a)"
proof (cases a; cases b)
  fix u v :: "64 word" assume "a = I64 u" "b = I64 v"
  moreover have "(u - v) * (u - v) = (v - u) * (v - u)" by (simp add: algebra_simps)
  ultimately show ?thesis by (simp add: num_square_def)
qed (simp_all add: num_square_def np_square_sub_commute)

text \<open>The two calls compute the same value, whatever the arguments are.\<close>

lemma calculate_edge_weight_commute:
  "calculate_edge_weight a b d = calculate_edge_weight b a d"
  by (simp add: calculate_edge_weight_def num_square_sub_commute [of "x a"]
      num_square_sub_commute [of "y a"] num_mul_commute [of "quality a"])

lemma np_gt_irrefl [simp]: "\<not> np_gt a a"
  by (cases a) simp_all

lemma np_eq_self: "np_eq a a = (a \<noteq> NaN)"
  by (cases a) simp_all

lemma weight_at_origin:
  "calculate_edge_weight \<lparr>x = F64 (Fin 0), y = F64 (Fin 0), quality = F64 (Fin 1)\<rparr>
     \<lparr>x = F64 (Fin 0), y = F64 (Fin 0), quality = F64 (Fin 1)\<rparr> DISPERSAL_DISTANCE = Fin 1"
  by (simp add: calculate_edge_weight_def num_square_def num_sqrt_def np_sub_def
      dispersal_distance_value)

lemma huge_float: "fl huge = Fin huge" "fl (- huge) = Fin (- huge)"
proof -
  show "fl huge = Fin huge"
    unfolding huge_def using fl_two_powi [of 600] by (simp only: emin_def emax_def) simp
  then show "fl (- huge) = Fin (- huge)" by (simp add: fl_minus)
qed

lemma huge_square: "fl (huge * huge) = PInf"
proof -
  have "huge * huge = 2 powi (600 + 600)"
    unfolding huge_def by (rule power_int_add [symmetric]) simp
  then have "huge * huge = 2 powi 1200" by (simp only: numeral_plus_numeral) simp
  then show ?thesis
    using fl_two_powi [of 1200] by (simp only: emin_def emax_def) simp
qed


text \<open>
  C2, as amended. The two calls \<open>calculate_edge_weight a b d\<close> and
  \<open>calculate_edge_weight b a d\<close> return the same value, for all patches and every
  dispersal distance: the same float, or NaN both. The comparison \<^verbatim>\<open>==\<close> of the two
  results holds exactly when that value is not NaN.
\<close>

theorem weight_symmetric:
  "calculate_edge_weight a b d = calculate_edge_weight b a d \<and>
   np_eq (calculate_edge_weight a b d) (calculate_edge_weight b a d) =
     (calculate_edge_weight a b d \<noteq> NaN)"
  by (simp add: calculate_edge_weight_commute [of b a] np_eq_self)

text \<open>
  C2 as stated fails on two patches with finite coordinates and finite positive
  qualities: the squared distance and the product of the qualities overflow, the decay
  factor is 0, the quality factor is infinite, and the weight is NaN in both
  directions, so that \<^verbatim>\<open>==\<close> is false.
\<close>

theorem weight_symmetric_counterexample:
  "calculate_edge_weight \<lparr>x = F64 (Fin 0), y = F64 (Fin 0), quality = F64 (Fin huge)\<rparr>
     \<lparr>x = F64 (Fin huge), y = F64 (Fin 0), quality = F64 (Fin huge)\<rparr> DISPERSAL_DISTANCE = NaN \<and>
   calculate_edge_weight \<lparr>x = F64 (Fin huge), y = F64 (Fin 0), quality = F64 (Fin huge)\<rparr>
     \<lparr>x = F64 (Fin 0), y = F64 (Fin 0), quality = F64 (Fin huge)\<rparr> DISPERSAL_DISTANCE = NaN \<and>
   \<not> np_eq
     (calculate_edge_weight \<lparr>x = F64 (Fin 0), y = F64 (Fin 0), quality = F64 (Fin huge)\<rparr>
       \<lparr>x = F64 (Fin huge), y = F64 (Fin 0), quality = F64 (Fin huge)\<rparr> DISPERSAL_DISTANCE)
     (calculate_edge_weight \<lparr>x = F64 (Fin huge), y = F64 (Fin 0), quality = F64 (Fin huge)\<rparr>
       \<lparr>x = F64 (Fin 0), y = F64 (Fin 0), quality = F64 (Fin huge)\<rparr> DISPERSAL_DISTANCE)"
proof -
  have "calculate_edge_weight \<lparr>x = F64 (Fin 0), y = F64 (Fin 0), quality = F64 (Fin huge)\<rparr>
     \<lparr>x = F64 (Fin huge), y = F64 (Fin 0), quality = F64 (Fin huge)\<rparr> DISPERSAL_DISTANCE = NaN"
    by (simp add: calculate_edge_weight_def num_square_def num_sqrt_def np_sub_def
        huge_float huge_square dispersal_distance_value)
  then show ?thesis
    by (simp add: calculate_edge_weight_commute
        [of "\<lparr>x = F64 (Fin huge), y = F64 (Fin 0), quality = F64 (Fin huge)\<rparr>"])
qed

lemma nonneg_le_not_gt: "nonneg_le a b \<Longrightarrow> \<not> np_gt a b"
  by (cases a; cases b) simp_all

lemma np_sqrt_mono: "nonneg_le a b \<Longrightarrow> nonneg_le (np_sqrt a) (np_sqrt b)"
proof (cases a; cases b)
  fix u v assume "a = Fin u" "b = Fin v" "nonneg_le a b"
  then show ?thesis by (simp add: fl_mono)
next
  fix u assume "a = Fin u" "b = PInf" "nonneg_le a b"
  then show ?thesis
    using fl_nonneg [of "sqrt u"] by (cases "fl (sqrt u)") simp_all
qed simp_all

lemma np_exp_range:
  "np_exp z = NaN \<or> np_exp z = PInf \<or> (\<exists>e. np_exp z = Fin e \<and> 0 \<le> e)"
proof (cases z)
  case (Fin a)
  have "0 \<le> exp a" by simp
  then show ?thesis by (cases rule: fl_nonneg_cases) (simp_all add: Fin)
qed simp_all

lemma scaled_mono:
  assumes "E = NaN \<or> E = PInf \<or> (\<exists>e. E = Fin e \<and> 0 \<le> e)" "nonneg_le A B"
  shows "\<not> np_gt (np_mul E A) (np_mul E B)"
proof -
  consider "E = NaN" | "E = PInf" | e where "E = Fin e" "0 \<le> e"
    using assms(1) by blast
  then show ?thesis
  proof cases
    case 1
    then show ?thesis by simp
  next
    case 2
    then show ?thesis using assms(2) by (cases A; cases B) auto
  next
    case 3
    show ?thesis
    proof (cases A; cases B)
      fix u v assume ab: "A = Fin u" "B = Fin v"
      with assms(2) 3 have "0 \<le> e * u" "e * u \<le> e * v"
        by (simp_all add: mult_left_mono)
      then have "nonneg_le (fl (e * u)) (fl (e * v))" by (rule fl_mono)
      then show ?thesis by (simp add: ab 3 nonneg_le_not_gt)
    next
      fix u assume "A = Fin u" "B = PInf"
      then show ?thesis using 3 by (cases "fl (e * u)") auto
    qed (use assms(2) 3 in auto)
  qed
qed

text \<open>
  C5, as amended. For patches whose qualities are float64 values that are finite and
  not negative, with the coordinates, the other quality and the dispersal distance
  fixed, raising the quality of a patch never lowers the weight, in either argument
  position: the weight before is never greater than the weight after.
\<close>

theorem weight_monotone_in_quality:
  assumes "quality a = F64 (Fin qa)" "quality b = F64 (Fin qb)"
    and "0 \<le> qa" "qa \<le> qa'" "0 \<le> qb"
  shows "\<not> np_gt (calculate_edge_weight a b d)
                  (calculate_edge_weight (a\<lparr>quality := F64 (Fin qa')\<rparr>) b d) \<and>
         \<not> np_gt (calculate_edge_weight b a d)
                  (calculate_edge_weight b (a\<lparr>quality := F64 (Fin qa')\<rparr>) d)"
proof -
  let ?a' = "a\<lparr>quality := F64 (Fin qa')\<rparr>"
  let ?E = "np_exp (np_div (np_neg (num_sqrt (num_add (num_square (num_sub (x a) (x b)))
      (num_square (num_sub (y a) (y b)))))) d)"
  have "0 \<le> qa * qb" "qa * qb \<le> qa' * qb"
    using assms(3-5) by (simp_all add: mult_right_mono)
  then have "nonneg_le (fl (qa * qb)) (fl (qa' * qb))" by (rule fl_mono)
  then have q: "nonneg_le (np_sqrt (fl (qa * qb))) (np_sqrt (fl (qa' * qb)))"
    by (rule np_sqrt_mono)
  have w: "calculate_edge_weight a b d = np_mul ?E (np_sqrt (fl (qa * qb)))"
    by (simp add: calculate_edge_weight_def assms(1,2) num_sqrt_def)
  have w': "calculate_edge_weight ?a' b d = np_mul ?E (np_sqrt (fl (qa' * qb)))"
    by (simp add: calculate_edge_weight_def assms(1,2) num_sqrt_def)
  have "\<not> np_gt (calculate_edge_weight a b d) (calculate_edge_weight ?a' b d)"
    unfolding w w' using np_exp_range q by (rule scaled_mono)
  then show ?thesis
    by (simp add: calculate_edge_weight_commute [of b])
qed

theorem weight_monotone_in_quality_witness:
  "\<not> np_gt (calculate_edge_weight \<lparr>x = F64 (Fin 0), y = F64 (Fin 0), quality = F64 (Fin 1)\<rparr>
              \<lparr>x = F64 (Fin 0), y = F64 (Fin 0), quality = F64 (Fin 4)\<rparr> DISPERSAL_DISTANCE)
            (calculate_edge_weight \<lparr>x = F64 (Fin 0), y = F64 (Fin 0), quality = F64 (Fin 9)\<rparr>
              \<lparr>x = F64 (Fin 0), y = F64 (Fin 0), quality = F64 (Fin 4)\<rparr> DISPERSAL_DISTANCE) \<and>
   calculate_edge_weight \<lparr>x = F64 (Fin 0), y = F64 (Fin 0), quality = F64 (Fin 1)\<rparr>
     \<lparr>x = F64 (Fin 0), y = F64 (Fin 0), quality = F64 (Fin 4)\<rparr> DISPERSAL_DISTANCE = Fin 2 \<and>
   calculate_edge_weight \<lparr>x = F64 (Fin 0), y = F64 (Fin 0), quality = F64 (Fin 9)\<rparr>
     \<lparr>x = F64 (Fin 0), y = F64 (Fin 0), quality = F64 (Fin 4)\<rparr> DISPERSAL_DISTANCE = Fin 6"
proof -
  have s: "sqrt 36 = 6" using real_sqrt_abs2 [of 6] by simp
  have "calculate_edge_weight \<lparr>x = F64 (Fin 0), y = F64 (Fin 0), quality = F64 (Fin 1)\<rparr>
      \<lparr>x = F64 (Fin 0), y = F64 (Fin 0), quality = F64 (Fin 4)\<rparr> DISPERSAL_DISTANCE = Fin 2"
    and "calculate_edge_weight \<lparr>x = F64 (Fin 0), y = F64 (Fin 0), quality = F64 (Fin 9)\<rparr>
      \<lparr>x = F64 (Fin 0), y = F64 (Fin 0), quality = F64 (Fin 4)\<rparr> DISPERSAL_DISTANCE = Fin 6"
    by (simp_all add: calculate_edge_weight_def num_square_def num_sqrt_def np_sub_def s
        dispersal_distance_value)
  then show ?thesis
    using weight_monotone_in_quality
      [of "\<lparr>x = F64 (Fin 0), y = F64 (Fin 0), quality = F64 (Fin 1)\<rparr>" 1
        "\<lparr>x = F64 (Fin 0), y = F64 (Fin 0), quality = F64 (Fin 4)\<rparr>" 4 9 DISPERSAL_DISTANCE]
    by simp
qed

text \<open>
  C5 as stated fails when the other patch has quality 0: the weight is 0 for the
  quality 1 and for the quality 2 alike.
\<close>

theorem weight_not_strictly_increasing_counterexample:
  "calculate_edge_weight \<lparr>x = F64 (Fin 0), y = F64 (Fin 0), quality = F64 (Fin 2)\<rparr>
      \<lparr>x = F64 (Fin 0), y = F64 (Fin 0), quality = F64 (Fin 0)\<rparr> DISPERSAL_DISTANCE = Fin 0 \<and>
   calculate_edge_weight \<lparr>x = F64 (Fin 0), y = F64 (Fin 0), quality = F64 (Fin 1)\<rparr>
      \<lparr>x = F64 (Fin 0), y = F64 (Fin 0), quality = F64 (Fin 0)\<rparr> DISPERSAL_DISTANCE = Fin 0 \<and>
   \<not> np_gt (calculate_edge_weight \<lparr>x = F64 (Fin 0), y = F64 (Fin 0), quality = F64 (Fin 2)\<rparr>
              \<lparr>x = F64 (Fin 0), y = F64 (Fin 0), quality = F64 (Fin 0)\<rparr> DISPERSAL_DISTANCE)
            (calculate_edge_weight \<lparr>x = F64 (Fin 0), y = F64 (Fin 0), quality = F64 (Fin 1)\<rparr>
              \<lparr>x = F64 (Fin 0), y = F64 (Fin 0), quality = F64 (Fin 0)\<rparr> DISPERSAL_DISTANCE)"
  by (simp add: calculate_edge_weight_def num_square_def num_sqrt_def np_sub_def
      dispersal_distance_value)








section \<open>Properties of the network construction\<close>

lemma py_ne_if_neq: "u \<noteq> v \<Longrightarrow> py_ne u v"
  by (cases u; cases v) simp_all

lemma nodes_add_edges_from [simp]:
  "nodes (add_edges_from d t sid sd rows G) = nodes G"
  unfolding add_edges_from_def
  by (induction rows arbitrary: G) (auto simp: add_edge_def Let_def)

lemma nodes_add_edges [simp]: "nodes (add_edges d t rows srcs G) = nodes G"
  unfolding add_edges_def
  by (induction srcs arbitrary: G) auto

lemma edges_add_nodes [simp]: "edges (add_nodes rows G) = edges G"
  unfolding add_nodes_def
  by (induction rows arbitrary: G) (auto simp: add_node_def)

text \<open>
  What the inner loop leaves at the pair \<open>(a, b)\<close> when the labels of the frame are
  distinct: the row labelled \<open>b\<close> is met once.
\<close>

lemma edges_add_edges_from:
  assumes "distinct (map fst rows)"
  shows "edges (add_edges_from d t sid sd rows G) (a, b) =
    (case map_of rows b of
       Some pb \<Rightarrow> if a = sid \<and> py_ne sid b \<and> np_gt (calculate_edge_weight sd pb d) t
                 then Some (calculate_edge_weight sd pb d) else edges G (a, b)
     | None \<Rightarrow> edges G (a, b))"
  using assms unfolding add_edges_from_def
proof (induction rows arbitrary: G)
  case Nil
  then show ?case by simp
next
  case (Cons r rows)
  obtain tid td where r: "r = (tid, td)" by (cases r)
  from Cons.prems have notin: "map_of rows tid = None" and d: "distinct (map fst rows)"
    by (auto simp: r map_of_eq_None_iff)
  show ?case
    using notin by (auto simp: r Cons.IH [OF d] add_edge_def Let_def split: option.splits)
qed

lemma edges_add_edges:
  assumes "distinct (map fst rows)" "distinct (map fst srcs)"
  shows "edges (add_edges d t rows srcs G) (a, b) =
    (case map_of srcs a of
       Some pa \<Rightarrow>
         (case map_of rows b of
            Some pb \<Rightarrow> if py_ne a b \<and> np_gt (calculate_edge_weight pa pb d) t
                      then Some (calculate_edge_weight pa pb d) else edges G (a, b)
          | None \<Rightarrow> edges G (a, b))
     | None \<Rightarrow> edges G (a, b))"
  using assms(2) unfolding add_edges_def
proof (induction srcs arbitrary: G)
  case Nil
  then show ?case by simp
next
  case (Cons r srcs)
  obtain sid sd where r: "r = (sid, sd)" by (cases r)
  from Cons.prems have notin: "map_of srcs sid = None" and d: "distinct (map fst srcs)"
    by (auto simp: r map_of_eq_None_iff)
  show ?case
    using notin
    by (auto simp: r Cons.IH [OF d] edges_add_edges_from [OF assms(1)] split: option.splits)
qed



lemmas build_defs = build_graph_def add_edges_def add_edges_from_def add_nodes_def
  add_node_def add_edge_def DiGraph_def

text \<open>
  C1. When the labels of the frame are distinct, for rows labelled \<open>u\<close> and \<open>v\<close> with
  \<open>u \<noteq> v\<close> the network holds the edge from \<open>u\<close> to \<open>v\<close> exactly when the computed
  weight is strictly greater than the threshold, and the edge then carries this weight.
  The comparison is strict, so a weight equal to the threshold gives no edge.
\<close>

theorem edge_iff_weight_above_threshold:
  assumes "distinct (map fst patches_df)"
    and "(u, pu) \<in> set patches_df" "(v, pv) \<in> set patches_df" "u \<noteq> v"
  shows "edges (build_graph d t patches_df) (u, v) =
     (if np_gt (calculate_edge_weight pu pv d) t
      then Some (calculate_edge_weight pu pv d) else None)"
  using assms by (simp add: build_graph_def edges_add_edges DiGraph_def py_ne_if_neq)

text \<open>
  The witness takes two patches of quality 1 at the same place, of weight 1: above the
  threshold of the script the edge is there with weight 1, at the threshold 1 it is
  not.
\<close>

theorem edge_iff_weight_above_threshold_witness:
  "distinct (map fst [(Label (2::nat), \<lparr>x = F64 (Fin 0), y = F64 (Fin 0), quality = F64 (Fin 1)\<rparr>),
                      (Label 3, \<lparr>x = F64 (Fin 0), y = F64 (Fin 0), quality = F64 (Fin 1)\<rparr>)]) \<and>
   edges (build_graph DISPERSAL_DISTANCE WEIGHT_THRESHOLD
            [(Label (2::nat), \<lparr>x = F64 (Fin 0), y = F64 (Fin 0), quality = F64 (Fin 1)\<rparr>),
             (Label 3, \<lparr>x = F64 (Fin 0), y = F64 (Fin 0), quality = F64 (Fin 1)\<rparr>)])
      (Label 2, Label 3) = Some (Fin 1) \<and>
   edges (build_graph DISPERSAL_DISTANCE (Fin 1)
            [(Label (2::nat), \<lparr>x = F64 (Fin 0), y = F64 (Fin 0), quality = F64 (Fin 1)\<rparr>),
             (Label 3, \<lparr>x = F64 (Fin 0), y = F64 (Fin 0), quality = F64 (Fin 1)\<rparr>)])
      (Label 2, Label 3) = None"
proof -
  obtain t where t: "WEIGHT_THRESHOLD = Fin t" "0 < t" "t < 1"
    by (rule weight_threshold_value)
  show ?thesis
    using
      edge_iff_weight_above_threshold [of
        "[(Label (2::nat), \<lparr>x = F64 (Fin 0), y = F64 (Fin 0), quality = F64 (Fin 1)\<rparr>),
          (Label 3, \<lparr>x = F64 (Fin 0), y = F64 (Fin 0), quality = F64 (Fin 1)\<rparr>)]"
        "Label 2" "\<lparr>x = F64 (Fin 0), y = F64 (Fin 0), quality = F64 (Fin 1)\<rparr>"
        "Label 3" "\<lparr>x = F64 (Fin 0), y = F64 (Fin 0), quality = F64 (Fin 1)\<rparr>"
        DISPERSAL_DISTANCE WEIGHT_THRESHOLD]
      edge_iff_weight_above_threshold [of
        "[(Label (2::nat), \<lparr>x = F64 (Fin 0), y = F64 (Fin 0), quality = F64 (Fin 1)\<rparr>),
          (Label 3, \<lparr>x = F64 (Fin 0), y = F64 (Fin 0), quality = F64 (Fin 1)\<rparr>)]"
        "Label 2" "\<lparr>x = F64 (Fin 0), y = F64 (Fin 0), quality = F64 (Fin 1)\<rparr>"
        "Label 3" "\<lparr>x = F64 (Fin 0), y = F64 (Fin 0), quality = F64 (Fin 1)\<rparr>"
        DISPERSAL_DISTANCE "Fin 1"]
      t(2,3)
    by (simp add: weight_at_origin t(1))
qed




section \<open>Properties of the solver\<close>

lemma positive_weightsD:
  "positive_weights G \<Longrightarrow> u \<in> set (wnodes G) \<Longrightarrow> v \<in> set (wnodes G) \<Longrightarrow> has_edge G u v
     \<Longrightarrow> 0 < edge_weight G u v"
  by (auto simp: positive_weights_def list_all_iff has_edge_def edge_weight_def
      split: option.splits)

lemma edge_weight_nonneg:
  "positive_weights G \<Longrightarrow> u \<in> set (wnodes G) \<Longrightarrow> v \<in> set (wnodes G) \<Longrightarrow> 0 \<le> edge_weight G u v"
  by (auto simp: positive_weights_def list_all_iff edge_weight_def split: option.splits
      intro: less_imp_le)

lemma out_weight_nonneg:
  assumes "positive_weights G" "u \<in> set (wnodes G)"
  shows "0 \<le> out_weight G u"
  unfolding out_weight_def
  by (rule sum_list_nonneg) (use assms in \<open>auto intro: edge_weight_nonneg\<close>)

lemma out_weight_pos:
  assumes "positive_weights G" "distinct (wnodes G)" "u \<in> set (wnodes G)" "\<not> dangling G u"
  shows "0 < out_weight G u"
proof -
  let ?S = "{v \<in> set (wnodes G). has_edge G u v}"
  have "out_weight G u = sum (edge_weight G u) ?S"
    unfolding out_weight_def using assms(2)
    by (simp add: sum_list_distinct_conv_sum_set)
  moreover have "?S \<noteq> {}"
    using assms(4) by (auto simp: dangling_def filter_empty_conv)
  moreover have "\<And>v. v \<in> ?S \<Longrightarrow> 0 < edge_weight G u v"
    using assms(1,3) by (auto intro: positive_weightsD)
  ultimately show ?thesis by (simp add: sum_pos del: mem_Collect_eq)
qed

lemma out_weight_dangling: "dangling G u \<Longrightarrow> out_weight G u = 0"
  by (simp add: out_weight_def dangling_def)

lemma new_score_nonneg:
  assumes "positive_weights G" "0 \<le> d" "d \<le> 1"
    and "\<And>u. u \<in> set (wnodes G) \<Longrightarrow> 0 \<le> s u" "v \<in> set (wnodes G)"
  shows "0 \<le> new_score G d s v"
proof -
  have 1: "0 \<le> (\<Sum>u\<leftarrow>filter (dangling G) (wnodes G). s u / real (length (wnodes G)))"
    by (rule sum_list_nonneg) (use assms(4) in auto)
  have 2: "0 \<le> (\<Sum>u\<leftarrow>filter (\<lambda>u. has_edge G u v) (wnodes G). s u * transition_prob G u v)"
    by (rule sum_list_nonneg)
      (use assms in \<open>auto simp: transition_prob_def intro!: mult_nonneg_nonneg divide_nonneg_nonneg
          edge_weight_nonneg out_weight_nonneg\<close>)
  have 3: "0 \<le> (1 - d) / real (length (wnodes G))" using assms(3) by simp
  show ?thesis
    unfolding new_score_def Let_def using 1 2 3 assms(2)
    by (intro add_nonneg_nonneg mult_nonneg_nonneg) auto
qed

lemma sum_new_score:
  assumes pw: "positive_weights G" and dist: "distinct (wnodes G)" and ne: "wnodes G \<noteq> []"
  shows "(\<Sum>v\<leftarrow>wnodes G. new_score G d s v) = (1 - d) + d * (\<Sum>v\<leftarrow>wnodes G. s v)"
proof -
  let ?N = "set (wnodes G)"
  let ?n = "real (length (wnodes G))"
  have n: "?n = real (card ?N)" "0 < ?n"
    using dist ne by (simp_all add: distinct_card)
  have fin: "finite ?N" by simp
  let ?D = "\<Sum>u\<in>?N. if dangling G u then s u else 0"
  let ?A = "\<lambda>v. \<Sum>u\<in>?N. if has_edge G u v then s u * transition_prob G u v else 0"
  have ns: "new_score G d s v = (1 - d) / ?n + d * (?D / ?n + ?A v)" for v
    unfolding new_score_def Let_def using dist
    by (simp add: sum_list_distinct_conv_sum_set sum.inter_filter sum_divide_distrib
        flip: sum.inter_filter)
  have ow: "(\<Sum>v\<in>?N. if has_edge G u v then edge_weight G u v else 0) = out_weight G u" for u
    unfolding out_weight_def using dist
    by (simp add: sum_list_distinct_conv_sum_set sum.inter_filter)
  have "(\<Sum>v\<in>?N. ?A v) =
      (\<Sum>u\<in>?N. \<Sum>v\<in>?N. if has_edge G u v then s u * transition_prob G u v else 0)"
    by (rule sum.swap)
  also have "\<dots> = (\<Sum>u\<in>?N. s u * ((\<Sum>v\<in>?N. if has_edge G u v then edge_weight G u v else 0)
                      / out_weight G u))"
    by (rule sum.cong [OF refl])
      (simp add: transition_prob_def sum_distrib_left sum_divide_distrib if_distrib [of "\<lambda>z. z / _"]
        if_distrib [of "\<lambda>z. _ * z"] cong: if_cong)
  also have "\<dots> = (\<Sum>u\<in>?N. if dangling G u then 0 else s u)"
  proof (rule sum.cong [OF refl])
    fix u assume u: "u \<in> ?N"
    show "s u * ((\<Sum>v\<in>?N. if has_edge G u v then edge_weight G u v else 0) / out_weight G u)
        = (if dangling G u then 0 else s u)"
      using out_weight_pos [OF pw dist u] out_weight_dangling [of G u]
      by (auto simp: ow)
  qed
  finally have A: "(\<Sum>v\<in>?N. ?A v) = (\<Sum>u\<in>?N. if dangling G u then 0 else s u)" .
  have DA: "?D + (\<Sum>u\<in>?N. if dangling G u then 0 else s u) = (\<Sum>u\<in>?N. s u)"
    by (simp flip: sum.distrib) (rule sum.cong, auto)
  have "(\<Sum>v\<leftarrow>wnodes G. new_score G d s v) = (\<Sum>v\<in>?N. (1 - d) / ?n + d * (?D / ?n + ?A v))"
    using dist by (simp add: sum_list_distinct_conv_sum_set ns)
  also have "\<dots> = (1 - d) + d * (?D + (\<Sum>v\<in>?N. ?A v))"
    using n ne by (simp add: sum.distrib sum_distrib_left [symmetric] distrib_left)
  also have "\<dots> = (1 - d) + d * (\<Sum>u\<in>?N. s u)"
    by (simp only: A DA)
  finally show ?thesis using dist by (simp add: sum_list_distinct_conv_sum_set)
qed

lemma power_iteration_invariant:
  assumes "positive_weights G" "distinct (wnodes G)" "wnodes G \<noteq> []" "0 \<le> d" "d \<le> 1"
    and "power_iteration G d tol k s r = Inr s'"
    and "\<And>u. u \<in> set (wnodes G) \<Longrightarrow> 0 \<le> s u" "(\<Sum>v\<leftarrow>wnodes G. s v) = 1"
  shows "(\<forall>u\<in>set (wnodes G). 0 \<le> s' u) \<and> (\<Sum>v\<leftarrow>wnodes G. s' v) = 1 \<and>
         0 < real (length (wnodes G)) * tol"
  using assms(6-8)
proof (induction k arbitrary: s r)
  case 0
  then show ?case by simp
next
  case (Suc k)
  let ?s = "new_score G d s"
  have nn: "\<And>u. u \<in> set (wnodes G) \<Longrightarrow> 0 \<le> ?s u"
    using new_score_nonneg [OF assms(1,4,5)] Suc.prems(2) by blast
  have sm: "(\<Sum>v\<leftarrow>wnodes G. ?s v) = 1"
    using sum_new_score [OF assms(1-3), of d s] Suc.prems(3) by simp
  have res: "0 \<le> residual G s ?s"
    unfolding residual_def by (rule sum_list_nonneg) auto
  show ?case
  proof (cases "residual G s ?s < real (length (wnodes G)) * tol")
    case True
    then have "s' = ?s" using Suc.prems(1) by (simp add: Let_def)
    then show ?thesis using nn sm res True by auto
  next
    case False
    then have "power_iteration G d tol k ?s (Some (residual G s ?s)) = Inr s'"
      using Suc.prems(1) by (simp add: Let_def)
    from Suc.IH [OF this nn sm] show ?thesis .
  qed
qed

text \<open>
  C3. For a graph with at least one node (the nodes distinct, the weights positive) and
  a damping factor strictly between 0 and 1, the distribution the solver returns has
  one score for each node, every score is at least 0, and the scores sum to 1: exactly
  1 over the reals, hence within \<open>n * tolerance\<close>, which is positive whenever the solver
  returns.
\<close>

theorem returned_scores_normalized:
  assumes "distinct (wnodes G)" "wnodes G \<noteq> []" "positive_weights G" "0 < d" "d < 1"
    and "solve G d tol maxIterations = Inr scores"
  shows "map fst scores = wnodes G \<and> list_all (\<lambda>(v, s). 0 \<le> s) scores \<and>
         sum_list (map snd scores) = 1 \<and>
         \<bar>sum_list (map snd scores) - 1\<bar> < real (length (wnodes G)) * tol"
proof -
  let ?n = "real (length (wnodes G))"
  from assms(2,6) obtain s' where
    pi: "power_iteration G d tol maxIterations (\<lambda>v. 1 / ?n) None = Inr s'"
    and sc: "scores = map (\<lambda>v. (v, s' v)) (wnodes G)"
    by (auto simp: solve_def Let_def split: sum.splits)
  have init: "(\<Sum>v\<leftarrow>wnodes G. 1 / ?n) = 1"
    using assms(2) by (simp add: sum_list_const_mult sum_list_triv)
  have "(\<forall>u\<in>set (wnodes G). 0 \<le> s' u) \<and> (\<Sum>v\<leftarrow>wnodes G. s' v) = 1 \<and> 0 < ?n * tol"
    using assms(4,5) by (intro power_iteration_invariant [OF assms(3,1,2) _ _ pi _ init]) auto
  then show ?thesis
    by (auto simp: sc list_all_iff comp_def)
qed

lemma power_iteration_fails:
  assumes "\<forall>i<k. \<not> residual_at G d (j + i) < real (length (wnodes G)) * tol"
  shows "power_iteration G d tol k (score_at G d j) r =
           Inl (ConvergenceFailure (if k = 0 then r else Some (residual_at G d (j + k - 1))))"
  using assms
proof (induction k arbitrary: j r)
  case 0
  then show ?case by simp
next
  case (Suc k)
  from Suc.prems have now: "\<not> residual_at G d j < real (length (wnodes G)) * tol"
    by (metis add.right_neutral zero_less_Suc)
  from Suc.prems have later:
    "\<forall>i<k. \<not> residual_at G d (Suc j + i) < real (length (wnodes G)) * tol"
    by (metis Suc_less_eq add_Suc_shift)
  have "power_iteration G d tol (Suc k) (score_at G d j) r =
          power_iteration G d tol k (score_at G d (Suc j)) (Some (residual_at G d j))"
    using now by (simp add: residual_at_def Let_def)
  also have "\<dots> = Inl (ConvergenceFailure
      (if k = 0 then Some (residual_at G d j) else Some (residual_at G d (Suc j + k - 1))))"
    by (rule Suc.IH [OF later])
  finally show ?case by (cases k) simp_all
qed

lemma power_iteration_returns:
  assumes "power_iteration G d tol k (score_at G d j) r = Inr s"
  shows "\<exists>i<k. residual_at G d (j + i) < real (length (wnodes G)) * tol \<and>
               s = score_at G d (Suc (j + i))"
  using assms
proof (induction k arbitrary: j r)
  case 0
  then show ?case by simp
next
  case (Suc k)
  show ?case
  proof (cases "residual_at G d j < real (length (wnodes G)) * tol")
    case True
    then have "s = score_at G d (Suc j)"
      using Suc.prems by (simp add: residual_at_def Let_def)
    with True show ?thesis by (intro exI [of _ 0]) simp
  next
    case False
    then have "power_iteration G d tol k (score_at G d (Suc j)) (Some (residual_at G d j)) = Inr s"
      using Suc.prems by (simp add: residual_at_def Let_def)
    from Suc.IH [OF this] obtain i where "i < k"
      "residual_at G d (Suc j + i) < real (length (wnodes G)) * tol"
      "s = score_at G d (Suc (Suc j + i))" by blast
    then show ?thesis by (intro exI [of _ "Suc i"]) simp
  qed
qed

text \<open>
  C8. On a graph with at least one node: when none of the \<open>maxIterations\<close> rounds
  (at least one) meets the convergence test, the solver reports \<open>ConvergenceFailure\<close>
  with the residual of the last round; and whatever it returns as scores is the vector
  of a round whose residual met the test. (With \<open>maxIterations = 0\<close> no round runs and
  the failure carries no residual.)
\<close>

theorem solver_reports_non_convergence:
  assumes "wnodes G \<noteq> []"
  shows "(0 < maxIterations \<and>
          (\<forall>k<maxIterations. \<not> residual_at G d k < real (length (wnodes G)) * tol) \<longrightarrow>
            solve G d tol maxIterations =
              Inl (ConvergenceFailure (Some (residual_at G d (maxIterations - 1))))) \<and>
         (solve G d tol maxIterations = Inr scores \<longrightarrow>
            (\<exists>k<maxIterations. residual_at G d k < real (length (wnodes G)) * tol \<and>
               scores = map (\<lambda>v. (v, score_at G d (Suc k) v)) (wnodes G)))"
proof (intro conjI impI)
  assume a: "0 < maxIterations \<and>
    (\<forall>k<maxIterations. \<not> residual_at G d k < real (length (wnodes G)) * tol)"
  then have "\<forall>i<maxIterations. \<not> residual_at G d (0 + i) < real (length (wnodes G)) * tol"
    by simp
  from power_iteration_fails [OF this, of None] a assms
  show "solve G d tol maxIterations =
      Inl (ConvergenceFailure (Some (residual_at G d (maxIterations - 1))))"
    by (simp add: solve_def)
next
  assume "solve G d tol maxIterations = Inr scores"
  with assms obtain s where
    pi: "power_iteration G d tol maxIterations (score_at G d 0) None = Inr s"
    and sc: "scores = map (\<lambda>v. (v, s v)) (wnodes G)"
    by (auto simp: solve_def Let_def split: sum.splits)
  from power_iteration_returns [OF pi] sc
  show "\<exists>k<maxIterations. residual_at G d k < real (length (wnodes G)) * tol \<and>
      scores = map (\<lambda>v. (v, score_at G d (Suc k) v)) (wnodes G)"
    by auto
qed

lemma solve_converges_at_once:
  assumes "wnodes G \<noteq> []" "0 < maxIterations"
    and "residual_at G d 0 < real (length (wnodes G)) * tol"
  shows "solve G d tol maxIterations = Inr (map (\<lambda>v. (v, score_at G d (Suc 0) v)) (wnodes G))"
  using assms by (cases maxIterations) (simp_all add: solve_def residual_at_def Let_def)

lemmas solver_defs = new_score_def dangling_def has_edge_def transition_prob_def
  out_weight_def edge_weight_def residual_def residual_at_def

lemma chain_scores:
  "map (\<lambda>v. (v, score_at \<lparr>wnodes = [2::nat, 3], wedges = [(2, 3) \<mapsto> 1]\<rparr> (1 / 2) (Suc 0) v)) [2, 3]
     = [(2, 3 / 8), (3, 5 / 8)]"
  by (simp add: solver_defs)

lemma chain_residual:
  "residual_at \<lparr>wnodes = [2::nat, 3], wedges = [(2, 3) \<mapsto> 1]\<rparr> (1 / 2) 0 = 1 / 4"
  by (simp add: solver_defs)

text \<open>
  The witness is the graph with the nodes 2 and 3 and the edge from 2 to 3, with the
  damping factor 1/2 and one round, whose residual is 1/4: it fails for the tolerance
  1/1000 and converges for the tolerance 1/2.
\<close>

theorem solver_reports_non_convergence_witness:
  "solve \<lparr>wnodes = [2::nat, 3], wedges = [(2, 3) \<mapsto> 1]\<rparr> (1 / 2) (1 / 1000) 1 =
     Inl (ConvergenceFailure (Some (1 / 4))) \<and>
   solve \<lparr>wnodes = [2::nat, 3], wedges = [(2, 3) \<mapsto> 1]\<rparr> (1 / 2) (1 / 2) 1 =
     Inr [(2, 3 / 8), (3, 5 / 8)] \<and>
   (\<exists>k<1. residual_at \<lparr>wnodes = [2::nat, 3], wedges = [(2, 3) \<mapsto> 1]\<rparr> (1 / 2) k < 2 * (1 / 2) \<and>
     [(2, 3 / 8), (3, 5 / 8)] =
       map (\<lambda>v. (v, score_at \<lparr>wnodes = [2::nat, 3], wedges = [(2, 3) \<mapsto> 1]\<rparr> (1 / 2) (Suc k) v)) [2, 3])"
proof -
  let ?G = "\<lparr>wnodes = [2::nat, 3], wedges = [(2, 3) \<mapsto> 1]\<rparr>"
  have ne: "wnodes ?G \<noteq> []" by simp
  have s: "solve ?G (1 / 2) (1 / 2) 1 = Inr [(2, 3 / 8), (3, 5 / 8)]"
    using solve_converges_at_once [of ?G 1 "1 / 2" "1 / 2"] chain_scores
    by (simp add: chain_residual)
  show ?thesis
    using solver_reports_non_convergence [OF ne, of 1 "1 / 2" "1 / 1000"]
      solver_reports_non_convergence [OF ne, of 1 "1 / 2" "1 / 2" "[(2, 3 / 8), (3, 5 / 8)]"] s
    by (simp add: chain_residual)
qed

theorem returned_scores_normalized_witness:
  "solve \<lparr>wnodes = [2::nat, 3], wedges = [(2, 3) \<mapsto> 1]\<rparr> (1 / 2) (1 / 2) 1 =
     Inr [(2, 3 / 8), (3, 5 / 8)] \<and>
   map fst [(2::nat, 3 / 8 :: real), (3, 5 / 8)] = [2, 3] \<and>
   list_all (\<lambda>(v, s). 0 \<le> s) [(2::nat, 3 / 8 :: real), (3, 5 / 8)] \<and>
   sum_list (map snd [(2::nat, 3 / 8 :: real), (3, 5 / 8)]) = 1 \<and>
   \<bar>sum_list (map snd [(2::nat, 3 / 8 :: real), (3, 5 / 8)]) - 1\<bar> < 2 * (1 / 2)"
proof -
  let ?G = "\<lparr>wnodes = [2::nat, 3], wedges = [(2, 3) \<mapsto> 1]\<rparr>"
  have ne: "wnodes ?G \<noteq> []" and di: "distinct (wnodes ?G)" by simp_all
  have pw: "positive_weights ?G" by (simp add: positive_weights_def)
  have s: "solve ?G (1 / 2) (1 / 2) 1 = Inr [(2, 3 / 8), (3, 5 / 8)]"
    using solve_converges_at_once [of ?G 1 "1 / 2" "1 / 2"] chain_scores
    by (simp add: chain_residual)
  have d: "(0::real) < 1 / 2" "(1 / 2 :: real) < 1" by simp_all
  show ?thesis
    using s returned_scores_normalized [OF di ne pw d s] by simp
qed


section \<open>Properties of the run\<close>

lemma map_of_nodes_add_nodes:
  "map_of (nodes (add_nodes rows G)) u =
     (case map_of (rev rows) u of
        Some p \<Rightarrow> Some (quality p, (x p, y p))
      | None \<Rightarrow> map_of (nodes G) u)"
  unfolding add_nodes_def
proof (induction rows arbitrary: G)
  case Nil
  then show ?case by simp
next
  case (Cons r rows)
  obtain pid pd where r: "r = (pid, pd)" by (cases r)
  show ?case
    by (simp add: r Cons.IH)
      (auto simp: add_node_def update_conv' map_add_def split: option.splits)
qed

lemma distinct_add_nodes:
  "distinct (map fst (nodes G)) \<Longrightarrow> distinct (map fst (nodes (add_nodes rows G)))"
  unfolding add_nodes_def
  by (induction rows arbitrary: G) (auto simp: add_node_def distinct_update)

text \<open>
  C6, as amended. Rows that share a label raise nothing and do not stop the
  construction. For every frame the network has one node for each label, carrying the
  attributes of the last row with that label, and the run hands the network to the
  solver: it ends with the solver's failure or with the sorted scores of the solver.
\<close>

theorem duplicate_labels_overwrite:
  "distinct (map fst (nodes (build_graph d t patches_df))) \<and>
   map_of (nodes (build_graph d t patches_df)) u =
     map_option (\<lambda>p. (quality p, (x p, y p))) (map_of (rev patches_df) u) \<and>
   main solver (Some patches_df) =
     (case solver (build_graph DISPERSAL_DISTANCE WEIGHT_THRESHOLD patches_df) DAMPING_FACTOR of
        Inl e \<Rightarrow> Raised e
      | Inr scores \<Rightarrow> Ranked (sorted_ranks scores))"
  by (auto simp: build_graph_def map_of_nodes_add_nodes distinct_add_nodes DiGraph_def main_def
      split: option.splits)

text \<open>
  C6 as stated fails: for two rows labelled 7 the construction is not stopped, it ends
  with the single node 7, which has the attributes of the second row.
\<close>

theorem duplicate_labels_counterexample:
  "build_graph DISPERSAL_DISTANCE WEIGHT_THRESHOLD
     [(Label (7::nat), \<lparr>x = F64 (Fin 0), y = F64 (Fin 0), quality = F64 (Fin 1)\<rparr>),
      (Label 7, \<lparr>x = F64 (Fin 3), y = F64 (Fin 4), quality = F64 (Fin 2)\<rparr>)] =
     \<lparr>nodes = [(Label 7, (F64 (Fin 2), (F64 (Fin 3), F64 (Fin 4))))], edges = Map.empty\<rparr>"
  by (simp add: build_defs)

lemma weight_negative_quality:
  "calculate_edge_weight \<lparr>x = F64 (Fin 0), y = F64 (Fin 0), quality = F64 (Fin (- 1))\<rparr>
     \<lparr>x = F64 (Fin 0), y = F64 (Fin 0), quality = F64 (Fin 1)\<rparr> d = NaN"
proof -
  have "np_mul E NaN = NaN" for E by (cases E) simp_all
  then show ?thesis
    by (simp add: calculate_edge_weight_def num_sqrt_def)
qed

lemma weight_infinite_coordinate:
  "calculate_edge_weight \<lparr>x = F64 PInf, y = F64 (Fin 0), quality = F64 (Fin 1)\<rparr>
     \<lparr>x = F64 (Fin 0), y = F64 (Fin 0), quality = F64 (Fin 1)\<rparr> (Fin 15) = Fin 0"
  by (simp add: calculate_edge_weight_def num_square_def num_sqrt_def np_sub_def)

text \<open>
  C7 as stated fails: with the quality -1 in one row the weight is NaN, no error is
  signalled and the construction is not stopped; it ends with both patches as nodes and
  no edge.
\<close>

theorem invalid_record_counterexample:
  "calculate_edge_weight \<lparr>x = F64 (Fin 0), y = F64 (Fin 0), quality = F64 (Fin (- 1))\<rparr>
     \<lparr>x = F64 (Fin 0), y = F64 (Fin 0), quality = F64 (Fin 1)\<rparr> DISPERSAL_DISTANCE = NaN \<and>
   build_graph DISPERSAL_DISTANCE WEIGHT_THRESHOLD
     [(Label (2::nat), \<lparr>x = F64 (Fin 0), y = F64 (Fin 0), quality = F64 (Fin (- 1))\<rparr>),
      (Label 3, \<lparr>x = F64 (Fin 0), y = F64 (Fin 0), quality = F64 (Fin 1)\<rparr>)] =
     \<lparr>nodes = [(Label 2, (F64 (Fin (- 1)), (F64 (Fin 0), F64 (Fin 0)))),
               (Label 3, (F64 (Fin 1), (F64 (Fin 0), F64 (Fin 0))))],
      edges = Map.empty\<rparr>"
  by (simp add: build_defs weight_negative_quality
      calculate_edge_weight_commute [of "\<lparr>x = F64 (Fin 0), y = F64 (Fin 0), quality = F64 (Fin 1)\<rparr>"])

lemma np_mul_zero_or_nan_right:
  "Q = NaN \<or> Q = Fin 0 \<Longrightarrow> np_mul E Q = NaN \<or> np_mul E Q = Fin 0"
  by (cases E) auto

lemma np_mul_zero_or_nan_left:
  "E = NaN \<or> E = Fin 0 \<Longrightarrow> np_mul E Q = NaN \<or> np_mul E Q = Fin 0"
  by (cases Q) auto

lemma quality_factor_opposite_signs:
  assumes "qa * qb < 0"
  shows "np_sqrt (fl (qa * qb)) = NaN \<or> np_sqrt (fl (qa * qb)) = Fin 0"
proof -
  have "qa * qb \<le> 0" using assms by simp
  then show ?thesis
  proof (cases rule: fl_nonpos_cases)
    case (1 v)
    then show ?thesis by (cases "v = 0") auto
  next
    case 2
    then show ?thesis by simp
  qed
qed

lemma np_square_sub_not_finite:
  "\<not> is_finite f \<Longrightarrow>
   np_mul (np_sub f g) (np_sub f g) = PInf \<or> np_mul (np_sub f g) (np_sub f g) = NaN"
  by (cases f; cases g) (simp_all add: np_sub_def)

lemma to_float_square_cases:
  "to_float (num_square c) = PInf \<or> to_float (num_square c) = NaN \<or>
   is_finite (to_float (num_square c))"
proof (cases c)
  case (I64 w)
  then show ?thesis using to_float_I64_finite [of "w * w"] by (simp add: num_square_def)
next
  case (F64 g)
  show ?thesis
  proof (cases g)
    case (Fin a)
    have "0 \<le> a * a" by simp
    then show ?thesis by (cases rule: fl_nonneg_cases) (simp_all add: F64 Fin num_square_def)
  qed (simp_all add: F64 num_square_def)
qed

lemma np_add_inf_or_nan:
  assumes "s = PInf \<or> s = NaN" "t = PInf \<or> t = NaN \<or> is_finite t"
  shows "np_add s t = PInf \<or> np_add s t = NaN" "np_add t s = PInf \<or> np_add t s = NaN"
  using assms by (cases t; auto)+

lemma to_float_num_add_left: "to_float (num_add (F64 s) c) = np_add s (to_float c)"
  by (cases c) simp_all

lemma to_float_num_add_right: "to_float (num_add c (F64 s)) = np_add (to_float c) s"
  by (cases c) simp_all

lemma num_square_sub_F64:
  "num_square (num_sub (F64 f) b) = F64 (np_mul (np_sub f (to_float b)) (np_sub f (to_float b)))"
  by (cases b) (simp_all add: num_square_def)

lemma squared_distance_not_finite:
  assumes "\<not> is_finite (to_float (x a)) \<or> \<not> is_finite (to_float (y a))"
  shows "to_float (num_add (num_square (num_sub (x a) (x b)))
                           (num_square (num_sub (y a) (y b)))) = PInf \<or>
         to_float (num_add (num_square (num_sub (x a) (x b)))
                           (num_square (num_sub (y a) (y b)))) = NaN"
proof -
  have coord: "\<exists>f. c = F64 f \<and> \<not> is_finite f" if "\<not> is_finite (to_float c)" for c
    using that to_float_I64_finite by (cases c) auto
  from assms show ?thesis
  proof
    assume "\<not> is_finite (to_float (x a))"
    then obtain f where f: "x a = F64 f" "\<not> is_finite f" using coord by blast
    show ?thesis
      unfolding f(1) num_square_sub_F64 to_float_num_add_left
      by (rule np_add_inf_or_nan(1) [OF np_square_sub_not_finite [OF f(2)] to_float_square_cases])
  next
    assume "\<not> is_finite (to_float (y a))"
    then obtain f where f: "y a = F64 f" "\<not> is_finite f" using coord by blast
    show ?thesis
      unfolding f(1) num_square_sub_F64 to_float_num_add_right
      by (rule np_add_inf_or_nan(2) [OF np_square_sub_not_finite [OF f(2)] to_float_square_cases])
  qed
qed

lemma decay_of_infinite_distance:
  "s = PInf \<or> s = NaN \<Longrightarrow> 0 < dd \<Longrightarrow>
   np_exp (np_div (np_neg (np_sqrt s)) (Fin dd)) = NaN \<or>
   np_exp (np_div (np_neg (np_sqrt s)) (Fin dd)) = Fin 0"
  by auto

lemma weight_of_invalid_pair:
  assumes "0 < dd"
    and "(quality a = F64 (Fin qa) \<and> quality b = F64 (Fin qb) \<and> qa * qb < 0) \<or>
         \<not> is_finite (to_float (x a)) \<or> \<not> is_finite (to_float (y a))"
  shows "calculate_edge_weight a b (Fin dd) = NaN \<or> calculate_edge_weight a b (Fin dd) = Fin 0"
  using assms(2)
proof (elim disjE conjE)
  assume "quality a = F64 (Fin qa)" "quality b = F64 (Fin qb)" "qa * qb < 0"
  then show ?thesis
    using np_mul_zero_or_nan_right [OF quality_factor_opposite_signs [of qa qb]]
    by (simp add: calculate_edge_weight_def num_sqrt_def)
next
  assume "\<not> is_finite (to_float (x a))"
  then have "\<not> is_finite (to_float (x a)) \<or> \<not> is_finite (to_float (y a))" by simp
  from np_mul_zero_or_nan_left
    [OF decay_of_infinite_distance [OF squared_distance_not_finite [OF this] assms(1)]]
  show ?thesis by (simp add: calculate_edge_weight_def num_sqrt_def)
next
  assume "\<not> is_finite (to_float (y a))"
  then have "\<not> is_finite (to_float (x a)) \<or> \<not> is_finite (to_float (y a))" by simp
  from np_mul_zero_or_nan_left
    [OF decay_of_infinite_distance [OF squared_distance_not_finite [OF this] assms(1)]]
  show ?thesis by (simp add: calculate_edge_weight_def num_sqrt_def)
qed

text \<open>
  C7, as amended. The edge weight signals no error on such rows, and the construction
  is not stopped. Take a frame with distinct labels, a positive dispersal distance and
  a threshold that is not negative, and two of its rows with different labels such
  that either the qualities are finite float64 values of opposite sign, or a coordinate
  of the first row is not finite. Then the weight of the pair is NaN or 0, and the
  network has no edge between the two rows, in either direction.
\<close>

theorem invalid_record_no_edge:
  assumes "distinct (map fst patches_df)"
    and "(u, pu) \<in> set patches_df" "(v, pv) \<in> set patches_df" "u \<noteq> v"
    and "0 < dd" "0 \<le> tt"
    and "(quality pu = F64 (Fin qa) \<and> quality pv = F64 (Fin qb) \<and> qa * qb < 0) \<or>
         \<not> is_finite (to_float (x pu)) \<or> \<not> is_finite (to_float (y pu))"
  shows "(calculate_edge_weight pu pv (Fin dd) = NaN \<or>
          calculate_edge_weight pu pv (Fin dd) = Fin 0) \<and>
         edges (build_graph (Fin dd) (Fin tt) patches_df) (u, v) = None \<and>
         edges (build_graph (Fin dd) (Fin tt) patches_df) (v, u) = None"
proof -
  have w: "calculate_edge_weight pu pv (Fin dd) = NaN \<or>
      calculate_edge_weight pu pv (Fin dd) = Fin 0"
    using assms(5,7) by (rule weight_of_invalid_pair)
  then have no: "\<not> np_gt (calculate_edge_weight pu pv (Fin dd)) (Fin tt)"
    using assms(6) by auto
  then have no': "\<not> np_gt (calculate_edge_weight pv pu (Fin dd)) (Fin tt)"
    by (simp add: calculate_edge_weight_commute [of pv])
  have "edges (build_graph (Fin dd) (Fin tt) patches_df) (u, v) = None"
    using assms(1-4) no by (simp add: build_graph_def edges_add_edges DiGraph_def)
  moreover have "edges (build_graph (Fin dd) (Fin tt) patches_df) (v, u) = None"
    using assms(1-4) no' by (simp add: build_graph_def edges_add_edges DiGraph_def)
  ultimately show ?thesis using w by simp
qed

text \<open>
  The witness: a row of quality -1 next to a row of quality 1, and a row with an
  infinite coordinate next to the same row, with the dispersal distance 15 and the
  threshold 1/4.
\<close>

theorem invalid_record_no_edge_witness:
  "calculate_edge_weight \<lparr>x = F64 (Fin 0), y = F64 (Fin 0), quality = F64 (Fin (- 1))\<rparr>
     \<lparr>x = F64 (Fin 0), y = F64 (Fin 0), quality = F64 (Fin 1)\<rparr> (Fin 15) = NaN \<and>
   edges (build_graph (Fin 15) (Fin (1 / 4))
     [(Label (2::nat), \<lparr>x = F64 (Fin 0), y = F64 (Fin 0), quality = F64 (Fin (- 1))\<rparr>),
      (Label 3, \<lparr>x = F64 (Fin 0), y = F64 (Fin 0), quality = F64 (Fin 1)\<rparr>)])
     (Label 2, Label 3) = None \<and>
   calculate_edge_weight \<lparr>x = F64 PInf, y = F64 (Fin 0), quality = F64 (Fin 1)\<rparr>
     \<lparr>x = F64 (Fin 0), y = F64 (Fin 0), quality = F64 (Fin 1)\<rparr> (Fin 15) = Fin 0 \<and>
   edges (build_graph (Fin 15) (Fin (1 / 4))
     [(Label (2::nat), \<lparr>x = F64 PInf, y = F64 (Fin 0), quality = F64 (Fin 1)\<rparr>),
      (Label 3, \<lparr>x = F64 (Fin 0), y = F64 (Fin 0), quality = F64 (Fin 1)\<rparr>)])
     (Label 2, Label 3) = None"
  using
    invalid_record_no_edge [of
      "[(Label (2::nat), \<lparr>x = F64 (Fin 0), y = F64 (Fin 0), quality = F64 (Fin (- 1))\<rparr>),
        (Label 3, \<lparr>x = F64 (Fin 0), y = F64 (Fin 0), quality = F64 (Fin 1)\<rparr>)]"
      "Label 2" "\<lparr>x = F64 (Fin 0), y = F64 (Fin 0), quality = F64 (Fin (- 1))\<rparr>"
      "Label 3" "\<lparr>x = F64 (Fin 0), y = F64 (Fin 0), quality = F64 (Fin 1)\<rparr>"
      15 "1 / 4" "- 1" 1]
    invalid_record_no_edge [of
      "[(Label (2::nat), \<lparr>x = F64 PInf, y = F64 (Fin 0), quality = F64 (Fin 1)\<rparr>),
        (Label 3, \<lparr>x = F64 (Fin 0), y = F64 (Fin 0), quality = F64 (Fin 1)\<rparr>)]"
      "Label 2" "\<lparr>x = F64 PInf, y = F64 (Fin 0), quality = F64 (Fin 1)\<rparr>"
      "Label 3" "\<lparr>x = F64 (Fin 0), y = F64 (Fin 0), quality = F64 (Fin 1)\<rparr>"
      15 "1 / 4" 1 1]
  by (simp add: weight_negative_quality weight_infinite_coordinate)


section \<open>Properties of the ranking\<close>

text \<open>
  C9, as amended. The ranked list is a permutation of the scored items, in descending
  order of score, and items of equal score keep the order they had in the solver's
  result (the order of the nodes, that is of the rows of the file): the output is
  determined by the input, but ties are not ordered by identifier.
\<close>

theorem ranking_sorted_stable:
  "mset (sorted_ranks items) = mset items \<and>
   sorted_wrt (\<lambda>a b. snd b \<le> snd a) (sorted_ranks items) \<and>
   filter (\<lambda>item. snd item = s) (sorted_ranks items) = filter (\<lambda>item. snd item = s) items"
proof -
  have "sorted (map snd (sort_key snd (rev items)))" by simp
  then have "sorted_wrt (\<lambda>a b. snd a \<le> snd b) (sort_key snd (rev items))"
    by (simp add: sorted_wrt_map)
  then have "sorted_wrt (\<lambda>a b. snd b \<le> snd a) (sorted_ranks items)"
    by (simp add: sorted_ranks_def sorted_wrt_rev)
  moreover have "filter (\<lambda>item. snd item = s) (sorted_ranks items) =
      filter (\<lambda>item. snd item = s) items"
    by (simp add: sorted_ranks_def sort_key_stable flip: rev_filter)
  moreover have "mset (sorted_ranks items) = mset items"
    by (simp add: sorted_ranks_def)
  ultimately show ?thesis by blast
qed

text \<open>
  C9 as stated fails: of two items with the score 1/2, listed as 5 then 3, the ranking
  keeps 5 before 3.
\<close>

theorem ranking_ties_counterexample:
  "sorted_ranks [(5::nat, 1 / 2), (3, 1 / 2)] = [(5, 1 / 2), (3, 1 / 2)]"
  by (simp add: sorted_ranks_def)

end
